theory Spec2Isabelle
  imports Main "HOL-Library.Word" "HOL-Library.Monad_Syntax" "HOL-Library.Signed_Division"
begin

unbundle bit_operations_syntax

section \<open>The streaming engine of engine.c\<close>

text \<open>
  A shallow embedding of \<^verbatim>\<open>src/engine.c\<close>. Memory that engine.c addresses by byte
  (the raw USB buffers, the MIDI buffers) is a list of bytes; a float or a double is its
  bit pattern, since the engine only moves them and hands them to collaborators; sizes and
  counts of type \<^verbatim>\<open>size_t\<close> are naturals, and where the code passes one through an
  \<^verbatim>\<open>int\<close> the two conversions are written out; the 16-bit block counter is a 16-bit
  word. The host's ring functions are the function pointers of
  \<^verbatim>\<open>struct ow_io_buffers\<close>: a missing pointer is \<open>None\<close>, and calling through one
  is the failure \<open>None\<close> of the caller. What engine.c gets from libusb, pthread and
  libsamplerate is an argument of the function that calls them.
\<close>

subsection \<open>Declarations of engine.h\<close>

type_synonym u8 = "8 word"
type_synonym c_float = "32 word"
type_synonym c_double = "64 word"

text \<open>
  Modelled from the spec: the enumeration \<^verbatim>\<open>ow_engine_status_t\<close> of engine.h, which is
  not among the sources. The spec gives its order,
  \<^verbatim>\<open>ERROR < STOP < READY < BOOT < WAIT < RUN\<close>; \<open>status_val\<close> numbers the members in
  that order and the comparisons of engine.c are comparisons of these numbers.
\<close>

datatype ow_engine_status_t =
  OW_STATUS_ERROR | OW_STATUS_STOP | OW_STATUS_READY | OW_STATUS_BOOT | OW_STATUS_WAIT
  | OW_STATUS_RUN

fun status_val :: "ow_engine_status_t \<Rightarrow> int" where
  "status_val OW_STATUS_ERROR = -1"
| "status_val OW_STATUS_STOP = 0"
| "status_val OW_STATUS_READY = 1"
| "status_val OW_STATUS_BOOT = 2"
| "status_val OW_STATUS_WAIT = 3"
| "status_val OW_STATUS_RUN = 4"

instantiation ow_engine_status_t :: linorder
begin

definition less_eq_ow_engine_status_t :: "ow_engine_status_t \<Rightarrow> ow_engine_status_t \<Rightarrow> bool" where
  "less_eq_ow_engine_status_t a b = (status_val a \<le> status_val b)"

definition less_ow_engine_status_t :: "ow_engine_status_t \<Rightarrow> ow_engine_status_t \<Rightarrow> bool" where
  "less_ow_engine_status_t a b = (status_val a < status_val b)"

instance
proof
  fix x y z :: ow_engine_status_t
  show "(x < y) = (x \<le> y \<and> \<not> y \<le> x)"
    by (auto simp: less_eq_ow_engine_status_t_def less_ow_engine_status_t_def)
  show "x \<le> x"
    by (simp add: less_eq_ow_engine_status_t_def)
  show "x \<le> y \<Longrightarrow> y \<le> z \<Longrightarrow> x \<le> z"
    by (simp add: less_eq_ow_engine_status_t_def)
  show "x \<le> y \<Longrightarrow> y \<le> x \<Longrightarrow> x = y"
    by (cases x; cases y) (simp_all add: less_eq_ow_engine_status_t_def)
  show "x \<le> y \<or> y \<le> x"
    by (auto simp: less_eq_ow_engine_status_t_def)
qed

end

text \<open>
  Modelled from the spec: the enumeration \<^verbatim>\<open>ow_err_t\<close> of engine.h. Its members are the
  kinds engine.c returns (the spec's section 7 lists them) and
  \<^verbatim>\<open>OW_USB_ERROR_CANT_OPEN_DEV\<close>, the kind of the third string of \<^verbatim>\<open>ob_err_strgs\<close>.
  The numbers engine.h gives the members are not known here: where they matter they are
  a parameter.
\<close>

datatype ow_err_t =
  OW_OK
  | OW_GENERIC_ERROR
  | OW_USB_ERROR_LIBUSB_INIT_FAILED
  | OW_USB_ERROR_CANT_OPEN_DEV
  | OW_USB_ERROR_CANT_SET_USB_CONFIG
  | OW_USB_ERROR_CANT_CLAIM_IF
  | OW_USB_ERROR_CANT_SET_ALT_SETTING
  | OW_USB_ERROR_CANT_CLEAR_EP
  | OW_USB_ERROR_CANT_PREPARE_TRANSFER
  | OW_USB_ERROR_CANT_FIND_DEV
  | OW_INIT_ERROR_NO_READ_SPACE
  | OW_INIT_ERROR_NO_WRITE_SPACE
  | OW_INIT_ERROR_NO_READ
  | OW_INIT_ERROR_NO_WRITE
  | OW_INIT_ERROR_NO_GET_TIME
  | OW_INIT_ERROR_NO_P2O_AUDIO_BUF
  | OW_INIT_ERROR_NO_O2P_AUDIO_BUF
  | OW_INIT_ERROR_NO_P2O_MIDI_BUF
  | OW_INIT_ERROR_NO_O2P_MIDI_BUF

text \<open>\<^verbatim>\<open>struct ow_midi_event\<close>: the four bytes of a USB MIDI packet and a host time.\<close>

record ow_midi_event =
  time :: c_double
  bytes :: "u8 list"

text \<open>
  What the engine passes to the host's \<^verbatim>\<open>write\<close> (the memory its source pointer points
  to) and to the host's \<^verbatim>\<open>read\<close> (a destination buffer, or NULL to discard).
\<close>

datatype ow_src = SRC_FLOATS "c_float list" | SRC_MIDI_EVENT ow_midi_event

datatype ow_dst = DST_NULL | DST_BUF

text \<open>
  \<^verbatim>\<open>struct ow_io_buffers\<close>: five function pointers and four ring handles, each of them
  possibly NULL. A ring handle stands for the state of the host's ring; \<^verbatim>\<open>read\<close> returns
  the ring after the call and the floats it stored at the destination.
\<close>

record 'r ow_io_buffers =
  read_space :: "('r \<Rightarrow> nat) option"
  write_space :: "('r \<Rightarrow> nat) option"
  read :: "('r \<Rightarrow> ow_dst \<Rightarrow> nat \<Rightarrow> 'r \<times> c_float list) option"
  write_fn :: "('r \<Rightarrow> ow_src \<Rightarrow> nat \<Rightarrow> 'r) option"
  get_time :: "(unit \<Rightarrow> c_double) option"
  p2o_audio :: "'r option"
  o2p_audio :: "'r option"
  p2o_midi :: "'r option"
  o2p_midi :: "'r option"

record ow_device_desc =
  inputs :: nat
  outputs :: nat

text \<open>
  The collaborators. The delay-locked loop (dll.c) is the list of the calls the engine
  made to it; \<^verbatim>\<open>SRC_DATA\<close> of libsamplerate keeps the fields engine.c sets and reads,
  its \<^verbatim>\<open>src_ratio\<close> as the two operands of the double division that computes it.
\<close>

datatype dll_call = DLL_INIT nat nat c_double | DLL_INC nat c_double

datatype c_quotient = DOUBLE_DIV nat nat

record SRC_DATA =
  end_of_input :: bool
  input_frames :: nat
  output_frames :: nat
  output_frames_gen :: nat
  src_ratio :: c_quotient

datatype ow_thread = P2O_MIDI_THREAD | AUDIO_O2P_MIDI_THREAD

datatype ow_xfr = XFR_IN | XFR_OUT | XFR_IN_MIDI | XFR_OUT_MIDI

text \<open>
  \<^verbatim>\<open>struct ow_engine\<close>. \<open>threads\<close> lists the threads \<^verbatim>\<open>pthread_create\<close> started,
  \<open>submitted\<close> the transfers handed to \<^verbatim>\<open>libusb_submit_transfer\<close> and \<open>errors\<close> the
  lines of \<^verbatim>\<open>error_print\<close>, each in the order of the calls.
\<close>

record 'r ow_engine =
  status :: ow_engine_status_t
  device_desc :: ow_device_desc
  blocks_per_transfer :: nat
  frames_per_transfer :: nat
  frames :: "16 word"
  usb_data_in :: "u8 list"
  usb_data_out :: "u8 list"
  usb_data_in_blk_len :: nat
  usb_data_out_blk_len :: nat
  usb_data_in_len :: nat
  usb_data_out_len :: nat
  p2o_frame_size :: nat
  o2p_frame_size :: nat
  p2o_transfer_size :: nat
  o2p_transfer_size :: nat
  p2o_transfer_buf :: "c_float list"
  o2p_transfer_buf :: "c_float list"
  p2o_resampler_buf :: "c_float list"
  p2o_data :: SRC_DATA
  p2o_midi_data :: "u8 list"
  o2p_midi_data :: "u8 list"
  io_buffers :: "'r ow_io_buffers option"
  dll_ow :: "dll_call list option"
  p2o_latency :: nat
  p2o_max_latency :: nat
  p2o_audio_enabled :: bool
  reading_at_p2o_end :: bool
  midi :: bool
  p2o_midi_ready :: bool
  threads :: "ow_thread list"
  submitted :: "ow_xfr list"
  errors :: "string list"

text \<open>
  What engine.c takes from elsewhere: the macros \<^verbatim>\<open>OB_FRAMES_PER_BLOCK\<close>,
  \<^verbatim>\<open>OB_PADDING_SIZE\<close> and \<^verbatim>\<open>OB_SAMPLE_RATE\<close> and the size of
  \<^verbatim>\<open>struct ow_midi_event\<close> from engine.h; the two sample conversions, which are
  floating-point arithmetic (\<^verbatim>\<open>(int32_t) (*f * INT_MAX)\<close> and
  \<^verbatim>\<open>hv / (float) INT_MAX\<close>); and \<^verbatim>\<open>src_simple\<close> of libsamplerate, which from the
  converter data, the input floats and the channel count gives its result code, the
  number of frames it generated and the floats it stored at the output.
\<close>

record ob_consts =
  OB_FRAMES_PER_BLOCK :: nat
  OB_PADDING_SIZE :: nat
  OB_SAMPLE_RATE :: nat
  sizeof_ow_midi_event :: nat
  float_to_sample :: "c_float \<Rightarrow> 32 word"
  sample_to_float :: "32 word \<Rightarrow> c_float"
  src_simple :: "SRC_DATA \<Rightarrow> c_float list \<Rightarrow> nat \<Rightarrow> int \<times> nat \<times> c_float list"

text \<open>
  Modelled from the spec: \<^verbatim>\<open>OB_BYTES_PER_SAMPLE\<close> and \<^verbatim>\<open>OB_MIDI_EVENT_SIZE\<close> of
  engine.h. A frame is four bytes for each channel, a MIDI event is a 4-byte packet.
\<close>

definition OB_BYTES_PER_SAMPLE :: nat where
  "OB_BYTES_PER_SAMPLE = 4"

definition OB_MIDI_EVENT_SIZE :: nat where
  "OB_MIDI_EVENT_SIZE = 4"

definition USB_BULK_MIDI_SIZE :: nat where
  "USB_BULK_MIDI_SIZE = 512"

datatype libusb_transfer_status =
  LIBUSB_TRANSFER_COMPLETED | LIBUSB_TRANSFER_ERROR | LIBUSB_TRANSFER_TIMED_OUT
  | LIBUSB_TRANSFER_CANCELLED | LIBUSB_TRANSFER_STALL | LIBUSB_TRANSFER_NO_DEVICE
  | LIBUSB_TRANSFER_OVERFLOW

subsection \<open>Memory\<close>

text \<open>
  \<open>store mem off xs\<close> writes \<open>xs\<close> into \<open>mem\<close> from index \<open>off\<close> on, and
  \<open>bytes_at mem off n\<close> reads \<open>n\<close> elements from there. The engine's buffers are
  allocated once and never grow: a store leaves the length as it is.
\<close>

fun store :: "'a list \<Rightarrow> nat \<Rightarrow> 'a list \<Rightarrow> 'a list" where
  "store mem off [] = mem"
| "store mem off (x # xs) = store (mem[off := x]) (Suc off) xs"

definition bytes_at :: "'a list \<Rightarrow> nat \<Rightarrow> nat \<Rightarrow> 'a list" where
  "bytes_at mem off n = map (\<lambda>i. mem ! (off + i)) [0..<n]"

definition htobe16 :: "16 word \<Rightarrow> u8 list" where
  "htobe16 w = [ucast (drop_bit 8 w), ucast w]"

definition be16toh :: "u8 list \<Rightarrow> 16 word" where
  "be16toh bs = push_bit 8 (ucast (bs ! 0)) OR ucast (bs ! 1)"

definition htobe32 :: "32 word \<Rightarrow> u8 list" where
  "htobe32 w = [ucast (drop_bit 24 w), ucast (drop_bit 16 w), ucast (drop_bit 8 w), ucast w]"

definition be32toh :: "u8 list \<Rightarrow> 32 word" where
  "be32toh bs =
     push_bit 24 (ucast (bs ! 0)) OR push_bit 16 (ucast (bs ! 1))
       OR push_bit 8 (ucast (bs ! 2)) OR ucast (bs ! 3)"

text \<open>\<^verbatim>\<open>memset (buf, 0, n)\<close> on a float buffer, \<open>n\<close> in bytes.\<close>

definition memset_zero :: "c_float list \<Rightarrow> nat \<Rightarrow> c_float list" where
  "memset_zero buf n = store buf 0 (replicate (n div 4) 0)"

text \<open>
  \<^verbatim>\<open>struct ow_engine_usb_blk\<close>: \<^verbatim>\<open>header\<close> at offset 0, \<^verbatim>\<open>frames\<close> at offset 2,
  \<^verbatim>\<open>padding\<close> at offset 4 and \<^verbatim>\<open>data\<close> after the padding (\<^verbatim>\<open>OB_PADDING_SIZE\<close> is a
  multiple of four in the device's protocol, so the compiler adds no padding of its own).
  A block is the offset of its first byte in the raw USB buffer.
\<close>

definition sizeof_usb_blk :: "ob_consts \<Rightarrow> nat" where
  "sizeof_usb_blk ps = 4 + OB_PADDING_SIZE ps"

definition blk_header :: nat where
  "blk_header = 0"

definition blk_frames :: nat where
  "blk_frames = 2"

definition blk_padding :: nat where
  "blk_padding = 4"

definition blk_data :: "ob_consts \<Rightarrow> nat" where
  "blk_data ps = 4 + OB_PADDING_SIZE ps"

definition get_nth_usb_in_blk :: "'r ow_engine \<Rightarrow> nat \<Rightarrow> nat" where
  "get_nth_usb_in_blk engine n = n * usb_data_in_blk_len engine"

definition get_nth_usb_out_blk :: "'r ow_engine \<Rightarrow> nat \<Rightarrow> nat" where
  "get_nth_usb_out_blk engine n = n * usb_data_out_blk_len engine"

subsection \<open>Status and control\<close>

definition error_print :: "string \<Rightarrow> 'r ow_engine \<Rightarrow> 'r ow_engine" where
  "error_print msg engine = engine\<lparr>errors := errors engine @ [msg]\<rparr>"

definition ow_engine_get_status :: "'r ow_engine \<Rightarrow> ow_engine_status_t" where
  "ow_engine_get_status engine = status engine"

definition ow_engine_set_status :: "'r ow_engine \<Rightarrow> ow_engine_status_t \<Rightarrow> 'r ow_engine" where
  "ow_engine_set_status engine st = engine\<lparr>status := st\<rparr>"

definition ow_engine_stop :: "'r ow_engine \<Rightarrow> 'r ow_engine" where
  "ow_engine_stop engine = ow_engine_set_status engine OW_STATUS_STOP"

definition ow_engine_is_p2o_audio_enable :: "'r ow_engine \<Rightarrow> bool" where
  "ow_engine_is_p2o_audio_enable engine = p2o_audio_enabled engine"

definition ow_engine_set_p2o_audio_enable :: "'r ow_engine \<Rightarrow> bool \<Rightarrow> 'r ow_engine" where
  "ow_engine_set_p2o_audio_enable engine enabled =
     (if ow_engine_is_p2o_audio_enable engine \<noteq> enabled
      then engine\<lparr>p2o_audio_enabled := enabled\<rparr> else engine)"

text \<open>
  \<^verbatim>\<open>ow_bytes_to_frame_bytes\<close> takes two \<^verbatim>\<open>int\<close> and returns an \<^verbatim>\<open>int\<close>, and
  engine.c calls it with a \<^verbatim>\<open>size_t\<close> and stores the result in a \<^verbatim>\<open>size_t\<close>. An
  \<^verbatim>\<open>int\<close> has 32 bits and a \<^verbatim>\<open>size_t\<close> 64: \<open>int_of_size_t\<close> keeps the low 32
  bits and reads them in two's complement, \<open>size_t_of_int\<close> extends the sign. The
  division of C truncates towards zero (\<open>sdiv\<close>); it traps when
  \<^verbatim>\<open>bytes_per_frame\<close> is zero and when the quotient does not fit (\<^verbatim>\<open>INT_MIN / -1\<close>):
  that is \<open>None\<close>. The product never exceeds \<^verbatim>\<open>bytes\<close> in absolute value.
\<close>

definition int_of_size_t :: "nat \<Rightarrow> int" where
  "int_of_size_t n =
     (if n mod 2 ^ 32 < 2 ^ 31 then int (n mod 2 ^ 32) else int (n mod 2 ^ 32) - 2 ^ 32)"

definition size_t_of_int :: "int \<Rightarrow> nat" where
  "size_t_of_int i = nat (i mod 2 ^ 64)"

definition ow_bytes_to_frame_bytes :: "int \<Rightarrow> int \<Rightarrow> int option" where
  "ow_bytes_to_frame_bytes nbytes bytes_per_frame =
     (if bytes_per_frame = 0 then None
      else if nbytes = - (2 ^ 31) \<and> bytes_per_frame = - 1 then None
      else let nframes = nbytes sdiv bytes_per_frame in Some (nframes * bytes_per_frame))"

subsection \<open>Initialization\<close>

text \<open>
  \<^verbatim>\<open>ow_engine_init\<close> from the label \<^verbatim>\<open>end\<close> on, in three parts: the sizes and the
  two raw USB buffers, zeroed; the loop that writes
  \<^verbatim>\<open>blk->header = htobe16 (0x07ff)\<close> in every outgoing block; the frame and transfer
  sizes, the float buffers, the resampler data and the MIDI buffers. \<open>ret\<close> is the
  outcome of the USB set-up before the label (opening the device, claiming the
  interfaces, preparing the transfers), \<open>desc\<close> the descriptor found for the device and
  \<open>engine\<close> the memory \<^verbatim>\<open>malloc\<close> returned. The fields the function does not set
  keep what that memory holds.
\<close>

definition init_usb_buffers ::
  "ob_consts \<Rightarrow> ow_device_desc \<Rightarrow> nat \<Rightarrow> 'r ow_engine \<Rightarrow> 'r ow_engine" where
  "init_usb_buffers ps desc blocks_per_transfer' engine =
    (let engine = engine\<lparr>device_desc := desc\<rparr>;
         engine = engine\<lparr>blocks_per_transfer := blocks_per_transfer'\<rparr>;
         engine = engine\<lparr>frames_per_transfer :=
                    OB_FRAMES_PER_BLOCK ps * blocks_per_transfer engine\<rparr>;
         engine = engine\<lparr>p2o_audio_enabled := False\<rparr>;
         engine = engine\<lparr>usb_data_in_blk_len :=
                    sizeof_usb_blk ps
                      + 4 * OB_FRAMES_PER_BLOCK ps * outputs (device_desc engine)\<rparr>;
         engine = engine\<lparr>usb_data_out_blk_len :=
                    sizeof_usb_blk ps
                      + 4 * OB_FRAMES_PER_BLOCK ps * inputs (device_desc engine)\<rparr>;
         engine = engine\<lparr>usb_data_in_len :=
                    usb_data_in_blk_len engine * blocks_per_transfer engine\<rparr>;
         engine = engine\<lparr>usb_data_out_len :=
                    usb_data_out_blk_len engine * blocks_per_transfer engine\<rparr>;
         engine = engine\<lparr>usb_data_in := replicate (usb_data_in_len engine) 0\<rparr>;
         engine = engine\<lparr>usb_data_out := replicate (usb_data_out_len engine) 0\<rparr>
     in engine)"

definition init_headers :: "'r ow_engine \<Rightarrow> 'r ow_engine" where
  "init_headers engine =
     fold (\<lambda>i engine.
             engine\<lparr>usb_data_out :=
               store (usb_data_out engine)
                 (get_nth_usb_out_blk engine i + blk_header) (htobe16 0x07ff)\<rparr>)
       [0..<blocks_per_transfer engine] engine"

definition init_transfer_buffers :: "'r ow_engine \<Rightarrow> 'r ow_engine" where
  "init_transfer_buffers engine =
    (let engine = engine\<lparr>p2o_frame_size := OB_BYTES_PER_SAMPLE * inputs (device_desc engine)\<rparr>;
         engine = engine\<lparr>o2p_frame_size := OB_BYTES_PER_SAMPLE * outputs (device_desc engine)\<rparr>;
         engine = engine\<lparr>p2o_transfer_size :=
                    frames_per_transfer engine * p2o_frame_size engine\<rparr>;
         engine = engine\<lparr>o2p_transfer_size :=
                    frames_per_transfer engine * o2p_frame_size engine\<rparr>;
         engine = engine\<lparr>p2o_transfer_buf := replicate (p2o_transfer_size engine div 4) 0\<rparr>;
         engine = engine\<lparr>o2p_transfer_buf := replicate (o2p_transfer_size engine div 4) 0\<rparr>;
         engine = engine\<lparr>p2o_resampler_buf := replicate (p2o_transfer_size engine div 4) 0\<rparr>;
         engine = engine\<lparr>p2o_data := (p2o_data engine)
                    \<lparr>end_of_input := True,
                     input_frames := frames_per_transfer engine,
                     output_frames := frames_per_transfer engine\<rparr>\<rparr>;
         engine = engine\<lparr>p2o_midi_data := replicate USB_BULK_MIDI_SIZE 0\<rparr>;
         engine = engine\<lparr>o2p_midi_data := replicate USB_BULK_MIDI_SIZE 0\<rparr>
     in engine)"

definition ow_engine_init ::
  "ob_consts \<Rightarrow> ow_err_t \<Rightarrow> ow_device_desc \<Rightarrow> nat \<Rightarrow> 'r ow_engine
    \<Rightarrow> ow_err_t \<times> 'r ow_engine option" where
  "ow_engine_init ps ret desc blocks_per_transfer' engine =
    (if ret = OW_OK
     then (OW_OK,
           Some (init_transfer_buffers
                  (init_headers (init_usb_buffers ps desc blocks_per_transfer' engine))))
     else (ret, None))"

subsection \<open>Submitting transfers\<close>

text \<open>
  The four \<^verbatim>\<open>prepare_cycle\<close> functions. \<open>err\<close> is what \<^verbatim>\<open>libusb_submit_transfer\<close>
  returns.
\<close>

definition prepare_cycle_out :: "'r ow_engine \<Rightarrow> int \<Rightarrow> 'r ow_engine" where
  "prepare_cycle_out engine err =
     (let engine = engine\<lparr>submitted := submitted engine @ [XFR_OUT]\<rparr> in
      if err \<noteq> 0
      then ow_engine_set_status
             (error_print ''j2o: Error when submitting USB audio transfer'' engine)
             OW_STATUS_ERROR
      else engine)"

definition prepare_cycle_in :: "'r ow_engine \<Rightarrow> int \<Rightarrow> 'r ow_engine" where
  "prepare_cycle_in engine err =
     (let engine = engine\<lparr>submitted := submitted engine @ [XFR_IN]\<rparr> in
      if err \<noteq> 0
      then ow_engine_set_status
             (error_print ''o2j: Error when submitting USB audio in transfer'' engine)
             OW_STATUS_ERROR
      else engine)"

definition prepare_cycle_in_midi :: "'r ow_engine \<Rightarrow> int \<Rightarrow> 'r ow_engine" where
  "prepare_cycle_in_midi engine err =
     (let engine = engine\<lparr>submitted := submitted engine @ [XFR_IN_MIDI]\<rparr> in
      if err \<noteq> 0
      then ow_engine_set_status
             (error_print ''o2j: Error when submitting USB MIDI transfer'' engine)
             OW_STATUS_ERROR
      else engine)"

definition prepare_cycle_out_midi :: "'r ow_engine \<Rightarrow> int \<Rightarrow> 'r ow_engine" where
  "prepare_cycle_out_midi engine err =
     (let engine = engine\<lparr>submitted := submitted engine @ [XFR_OUT_MIDI]\<rparr> in
      if err \<noteq> 0
      then ow_engine_set_status
             (error_print ''j2o: Error when submitting USB MIDI transfer'' engine)
             OW_STATUS_ERROR
      else engine)"

subsection \<open>The device to host audio path\<close>

text \<open>
  The body of the innermost loop of \<^verbatim>\<open>set_usb_input_data_blks\<close> and the two inner
  loops, over the frames and the channels of one block: \<open>f\<close> is the index \<^verbatim>\<open>f\<close>
  points to in the float buffer and \<open>s\<close> the offset \<^verbatim>\<open>s\<close> points to in the raw
  buffer.
\<close>

definition get_sample ::
  "ob_consts \<Rightarrow> u8 list \<Rightarrow> c_float list \<times> nat \<times> nat \<Rightarrow> c_float list \<times> nat \<times> nat" where
  "get_sample ps mem = (\<lambda>(buf, f, s).
     (buf[f := sample_to_float ps (be32toh (bytes_at mem s 4))], Suc f, s + 4))"

definition get_blk_data ::
  "ob_consts \<Rightarrow> nat \<Rightarrow> u8 list \<Rightarrow> c_float list \<times> nat \<times> nat \<Rightarrow> c_float list \<times> nat \<times> nat" where
  "get_blk_data ps channels mem =
     fold (\<lambda>j. fold (\<lambda>k. get_sample ps mem) [0..<channels]) [0..<OB_FRAMES_PER_BLOCK ps]"

definition set_usb_input_data_blks :: "ob_consts \<Rightarrow> 'r ow_engine \<Rightarrow> 'r ow_engine option" where
  "set_usb_input_data_blks ps engine0 = do {
     engine \<leftarrow> (case dll_ow engine0 of
                  None \<Rightarrow> Some engine0
                | Some calls \<Rightarrow> do {
                    io \<leftarrow> io_buffers engine0;
                    now \<leftarrow> get_time io;
                    Some (engine0\<lparr>dll_ow :=
                            Some (calls @ [DLL_INC (frames_per_transfer engine0) (now ())])\<rparr>)
                  });
     let st = status engine;
     let engine = engine\<lparr>o2p_transfer_buf :=
                    fst (fold (\<lambda>i (buf, f).
                           let (buf, f, s) =
                                 get_blk_data ps (outputs (device_desc engine)) (usb_data_in engine)
                                   (buf, f, get_nth_usb_in_blk engine i + blk_data ps)
                           in (buf, f))
                         [0..<blocks_per_transfer engine] (o2p_transfer_buf engine, 0))\<rparr>;
     if st < OW_STATUS_RUN then Some engine
     else do {
       io \<leftarrow> io_buffers engine;
       ws \<leftarrow> write_space io;
       ring \<leftarrow> o2p_audio io;
       let wso2j = ws ring;
       if o2p_transfer_size engine \<le> wso2j
       then do {
         wr \<leftarrow> write_fn io;
         Some (engine\<lparr>io_buffers := Some (io\<lparr>o2p_audio :=
                 Some (wr ring (SRC_FLOATS (o2p_transfer_buf engine))
                         (o2p_transfer_size engine))\<rparr>)\<rparr>)
       }
       else Some (error_print ''o2j: Audio ring buffer overflow. Discarding data...'' engine)
     }
   }"

definition cb_xfr_in ::
  "ob_consts \<Rightarrow> 'r ow_engine \<Rightarrow> libusb_transfer_status \<Rightarrow> int \<Rightarrow> 'r ow_engine option" where
  "cb_xfr_in ps engine xfr_status err = do {
     engine \<leftarrow> (if xfr_status = LIBUSB_TRANSFER_COMPLETED
                 then set_usb_input_data_blks ps engine
                 else Some (error_print ''o2j: Error on USB audio transfer'' engine));
     Some (prepare_cycle_in engine err)
   }"

subsection \<open>The host to device audio path\<close>

text \<open>
  The body of the innermost loop under the label \<^verbatim>\<open>set_blocks\<close> and the two inner
  loops, for one block.
\<close>

definition set_sample ::
  "ob_consts \<Rightarrow> c_float list \<Rightarrow> u8 list \<times> nat \<times> nat \<Rightarrow> u8 list \<times> nat \<times> nat" where
  "set_sample ps buf = (\<lambda>(mem, f, s).
     (store mem s (htobe32 (float_to_sample ps (buf ! f))), Suc f, s + 4))"

definition set_blk_data ::
  "ob_consts \<Rightarrow> nat \<Rightarrow> c_float list \<Rightarrow> u8 list \<times> nat \<times> nat \<Rightarrow> u8 list \<times> nat \<times> nat" where
  "set_blk_data ps channels buf =
     fold (\<lambda>j. fold (\<lambda>k. set_sample ps buf) [0..<channels]) [0..<OB_FRAMES_PER_BLOCK ps]"

text \<open>
  One round of the loop over the blocks: the counter \<^verbatim>\<open>engine->frames\<close>, a
  \<^verbatim>\<open>uint16_t\<close>, goes up by \<^verbatim>\<open>OB_FRAMES_PER_BLOCK\<close> and is stored big-endian in the
  block's \<^verbatim>\<open>frames\<close>, then the samples are stored in its \<^verbatim>\<open>data\<close>.
\<close>

definition set_block :: "ob_consts \<Rightarrow> nat \<Rightarrow> 'r ow_engine \<times> nat \<Rightarrow> 'r ow_engine \<times> nat" where
  "set_block ps i = (\<lambda>(engine, f).
     let blk = get_nth_usb_out_blk engine i;
         engine = engine\<lparr>frames := frames engine + of_nat (OB_FRAMES_PER_BLOCK ps)\<rparr>;
         engine = engine\<lparr>usb_data_out :=
                    store (usb_data_out engine) (blk + blk_frames) (htobe16 (frames engine))\<rparr>;
         (mem, f, s) = set_blk_data ps (inputs (device_desc engine)) (p2o_transfer_buf engine)
                         (usb_data_out engine, f, blk + blk_data ps)
     in (engine\<lparr>usb_data_out := mem\<rparr>, f))"

definition set_blocks :: "ob_consts \<Rightarrow> 'r ow_engine \<Rightarrow> 'r ow_engine" where
  "set_blocks ps engine = fst (fold (set_block ps) [0..<blocks_per_transfer engine] (engine, 0))"

text \<open>
  The underflow branch of \<^verbatim>\<open>set_usb_output_data_blks\<close>: the ring holds \<open>rsj2o\<close>
  bytes, less than a transfer. The integer division by the frame size traps on zero; the
  division that gives \<^verbatim>\<open>src_ratio\<close> is a division of doubles and does not.
\<close>

definition p2o_underflow ::
  "ob_consts \<Rightarrow> 'r ow_engine \<Rightarrow> 'r ow_io_buffers \<Rightarrow> 'r \<Rightarrow> nat \<Rightarrow> 'r ow_engine option" where
  "p2o_underflow ps engine io ring rsj2o = do {
     nframes \<leftarrow> (if p2o_frame_size engine = 0 then None
                  else Some (rsj2o div p2o_frame_size engine));
     let nbytes = nframes * p2o_frame_size engine;
     rd \<leftarrow> read io;
     let (ring, floats) = rd ring DST_BUF nbytes;
     let engine = engine\<lparr>io_buffers := Some (io\<lparr>p2o_audio := Some ring\<rparr>)\<rparr>;
     let engine = engine\<lparr>p2o_resampler_buf :=
                    store (p2o_resampler_buf engine) 0 (take (nbytes div 4) floats)\<rparr>;
     let engine = engine\<lparr>p2o_data := (p2o_data engine)\<lparr>input_frames := nframes\<rparr>\<rparr>;
     let engine = engine\<lparr>p2o_data := (p2o_data engine)
                    \<lparr>src_ratio := DOUBLE_DIV (frames_per_transfer engine) nframes\<rparr>\<rparr>;
     let (res, gen, out) = src_simple ps (p2o_data engine) (p2o_resampler_buf engine)
                             (inputs (device_desc engine));
     let engine = engine\<lparr>p2o_data := (p2o_data engine)\<lparr>output_frames_gen := gen\<rparr>,
                     p2o_transfer_buf := store (p2o_transfer_buf engine) 0 out\<rparr>;
     Some (if res = 0 \<and> output_frames_gen (p2o_data engine) \<noteq> frames_per_transfer engine
           then error_print ''j2o: Unexpected frames with ratio'' engine
           else engine)
   }"

definition set_usb_output_data_blks :: "ob_consts \<Rightarrow> 'r ow_engine \<Rightarrow> 'r ow_engine option" where
  "set_usb_output_data_blks ps engine = do {
     let enabled = ow_engine_is_p2o_audio_enable engine;
     io \<leftarrow> io_buffers engine;
     rs \<leftarrow> read_space io;
     ring \<leftarrow> p2o_audio io;
     let rsj2o = rs ring;
     if \<not> reading_at_p2o_end engine
     then (if enabled \<and> rsj2o \<ge> p2o_transfer_size engine
           then do {
             nbytes \<leftarrow> map_option size_t_of_int
                 (ow_bytes_to_frame_bytes (int_of_size_t rsj2o)
                    (int_of_size_t (p2o_frame_size engine)));
             rd \<leftarrow> read io;
             let engine = engine\<lparr>io_buffers :=
                            Some (io\<lparr>p2o_audio := Some (fst (rd ring DST_NULL nbytes))\<rparr>)\<rparr>;
             let engine = engine\<lparr>reading_at_p2o_end := True\<rparr>;
             Some (set_blocks ps engine)
           }
           else Some (set_blocks ps engine))
     else if \<not> enabled
     then Some (set_blocks ps
                 (engine\<lparr>reading_at_p2o_end := False,
                         p2o_transfer_buf :=
                           memset_zero (p2o_transfer_buf engine) (p2o_transfer_size engine)\<rparr>))
     else do {
       let engine = engine\<lparr>p2o_latency := rsj2o\<rparr>;
       let engine = (if p2o_latency engine > p2o_max_latency engine
                     then engine\<lparr>p2o_max_latency := p2o_latency engine\<rparr> else engine);
       if rsj2o \<ge> p2o_transfer_size engine
       then do {
         rd \<leftarrow> read io;
         let (ring, floats) = rd ring DST_BUF (p2o_transfer_size engine);
         Some (set_blocks ps
                (engine\<lparr>io_buffers := Some (io\<lparr>p2o_audio := Some ring\<rparr>),
                        p2o_transfer_buf :=
                          store (p2o_transfer_buf engine) 0
                            (take (p2o_transfer_size engine div 4) floats)\<rparr>))
       }
       else do {
         engine \<leftarrow> p2o_underflow ps engine io ring rsj2o;
         Some (set_blocks ps engine)
       }
     }
   }"

definition cb_xfr_out ::
  "ob_consts \<Rightarrow> 'r ow_engine \<Rightarrow> libusb_transfer_status \<Rightarrow> int \<Rightarrow> 'r ow_engine option" where
  "cb_xfr_out ps engine xfr_status err = do {
     let engine = (if xfr_status \<noteq> LIBUSB_TRANSFER_COMPLETED
                   then error_print ''j2o: Error on USB audio transfer'' engine else engine);
     engine \<leftarrow> set_usb_output_data_blks ps engine;
     Some (prepare_cycle_out engine err)
   }"

subsection \<open>The device to host MIDI path\<close>

text \<open>
  One round of the loop of \<^verbatim>\<open>cb_xfr_in_midi\<close>, for the event at offset \<open>len\<close> of
  \<^verbatim>\<open>o2p_midi_data\<close>, and the loop, which advances by \<^verbatim>\<open>OB_MIDI_EVENT_SIZE\<close> while the
  offset is below \<^verbatim>\<open>actual_length\<close>. \<open>now\<close> is the time read before the loop.
\<close>

definition midi_event_at :: "c_double \<Rightarrow> u8 list \<Rightarrow> nat \<Rightarrow> ow_midi_event" where
  "midi_event_at now mem len = \<lparr>time = now, bytes = bytes_at mem len OB_MIDI_EVENT_SIZE\<rparr>"

definition cb_xfr_in_midi_event ::
  "ob_consts \<Rightarrow> c_double \<Rightarrow> nat \<Rightarrow> 'r ow_engine \<Rightarrow> 'r ow_engine option" where
  "cb_xfr_in_midi_event ps now len engine =
     (let event = midi_event_at now (o2p_midi_data engine) len in
      if bytes event ! 0 \<ge> 0x08 \<and> bytes event ! 0 \<le> 0x0f
      then do {
        io \<leftarrow> io_buffers engine;
        ws \<leftarrow> write_space io;
        ring \<leftarrow> o2p_midi io;
        if ws ring \<ge> sizeof_ow_midi_event ps
        then do {
          wr \<leftarrow> write_fn io;
          Some (engine\<lparr>io_buffers := Some (io\<lparr>o2p_midi :=
                  Some (wr ring (SRC_MIDI_EVENT event) (sizeof_ow_midi_event ps))\<rparr>)\<rparr>)
        }
        else Some (error_print ''o2j: MIDI ring buffer overflow. Discarding data...'' engine)
      }
      else Some engine)"

function cb_xfr_in_midi_loop ::
  "ob_consts \<Rightarrow> c_double \<Rightarrow> nat \<Rightarrow> nat \<Rightarrow> 'r ow_engine \<Rightarrow> 'r ow_engine option" where
  "cb_xfr_in_midi_loop ps now actual_length len engine =
     (if len < actual_length
      then (case cb_xfr_in_midi_event ps now len engine of
              None \<Rightarrow> None
            | Some engine \<Rightarrow>
                cb_xfr_in_midi_loop ps now actual_length (len + OB_MIDI_EVENT_SIZE) engine)
      else Some engine)"
  by pat_completeness auto
termination
  by (relation "measure (\<lambda>(ps, now, actual_length, len, engine). actual_length - len)")
     (auto simp: OB_MIDI_EVENT_SIZE_def)

declare cb_xfr_in_midi_loop.simps [simp del]

definition cb_xfr_in_midi ::
  "ob_consts \<Rightarrow> 'r ow_engine \<Rightarrow> libusb_transfer_status \<Rightarrow> nat \<Rightarrow> int
    \<Rightarrow> 'r ow_engine option" where
  "cb_xfr_in_midi ps engine xfr_status actual_length err =
     (if ow_engine_get_status engine < OW_STATUS_RUN
      then Some (prepare_cycle_in_midi engine err)
      else if xfr_status = LIBUSB_TRANSFER_COMPLETED
      then do {
        io \<leftarrow> io_buffers engine;
        now \<leftarrow> get_time io;
        engine \<leftarrow> cb_xfr_in_midi_loop ps (now ()) actual_length 0 engine;
        Some (prepare_cycle_in_midi engine err)
      }
      else Some (prepare_cycle_in_midi
                  (if xfr_status \<noteq> LIBUSB_TRANSFER_TIMED_OUT
                   then error_print ''Error on USB MIDI in transfer'' engine else engine)
                  err))"

definition cb_xfr_out_midi :: "'r ow_engine \<Rightarrow> libusb_transfer_status \<Rightarrow> 'r ow_engine" where
  "cb_xfr_out_midi engine xfr_status =
     (let engine = engine\<lparr>p2o_midi_ready := True\<rparr> in
      if xfr_status \<noteq> LIBUSB_TRANSFER_COMPLETED
      then error_print ''Error on USB MIDI out transfer'' engine else engine)"

subsection \<open>The audio thread and the steps of the engine\<close>

text \<open>
  \<^verbatim>\<open>run_audio_o2p_midi\<close> as a machine whose steps are the places where the thread
  reads or writes the status, each under the engine's lock: the wait for the status to
  leave \<^verbatim>\<open>READY\<close>, the three first submissions, the top of the outer loop (which ends
  with \<^verbatim>\<open>engine->status = OW_STATUS_WAIT\<close>), the test of the inner loop, the call of
  \<^verbatim>\<open>libusb_handle_events_completed\<close>, the test for \<^verbatim>\<open>STOP\<close>, the write of
  \<^verbatim>\<open>BOOT\<close>, the drain of the ring, and the return.
\<close>

datatype audio_pc =
  PC_SPIN | PC_PREPARE_IN | PC_PREPARE_OUT | PC_PREPARE_IN_MIDI | PC_TOP | PC_LOOP
  | PC_EVENTS | PC_CHECK | PC_REARM | PC_DRAIN | PC_RETURN

definition thread_top :: "ob_consts \<Rightarrow> 'r ow_engine \<Rightarrow> 'r ow_engine option" where
  "thread_top ps engine = do {
     let engine = engine\<lparr>p2o_latency := 0, p2o_max_latency := 0, reading_at_p2o_end := False\<rparr>;
     engine \<leftarrow> (case dll_ow engine of
                  None \<Rightarrow> Some engine
                | Some calls \<Rightarrow> do {
                    io \<leftarrow> io_buffers engine;
                    now \<leftarrow> get_time io;
                    Some (engine\<lparr>dll_ow :=
                            Some (calls @ [DLL_INIT (OB_SAMPLE_RATE ps)
                                             (frames_per_transfer engine) (now ())])\<rparr>)
                  });
     Some (engine\<lparr>status := OW_STATUS_WAIT\<rparr>)
   }"

definition thread_drain :: "'r ow_engine \<Rightarrow> 'r ow_engine option" where
  "thread_drain engine = do {
     io \<leftarrow> io_buffers engine;
     rs \<leftarrow> read_space io;
     ring \<leftarrow> p2o_audio io;
     let rsj2o = rs ring;
     nbytes \<leftarrow> map_option size_t_of_int
                 (ow_bytes_to_frame_bytes (int_of_size_t rsj2o)
                    (int_of_size_t (p2o_frame_size engine)));
     rd \<leftarrow> read io;
     Some (engine\<lparr>io_buffers := Some (io\<lparr>p2o_audio := Some (fst (rd ring DST_NULL nbytes))\<rparr>),
                  p2o_transfer_buf :=
                    memset_zero (p2o_transfer_buf engine) (p2o_transfer_size engine)\<rparr>)
   }"

fun run_audio_o2p_midi ::
  "ob_consts \<Rightarrow> int \<Rightarrow> audio_pc \<times> 'r ow_engine \<Rightarrow> (audio_pc \<times> 'r ow_engine) option" where
  "run_audio_o2p_midi ps err (PC_SPIN, engine) =
     (if ow_engine_get_status engine = OW_STATUS_READY then Some (PC_SPIN, engine)
      else Some (PC_PREPARE_IN, engine))"
| "run_audio_o2p_midi ps err (PC_PREPARE_IN, engine) =
     Some (PC_PREPARE_OUT, prepare_cycle_in engine err)"
| "run_audio_o2p_midi ps err (PC_PREPARE_OUT, engine) =
     Some (PC_PREPARE_IN_MIDI, prepare_cycle_out engine err)"
| "run_audio_o2p_midi ps err (PC_PREPARE_IN_MIDI, engine) =
     Some (PC_TOP, if midi engine then prepare_cycle_in_midi engine err else engine)"
| "run_audio_o2p_midi ps err (PC_TOP, engine) =
     map_option (Pair PC_LOOP) (thread_top ps engine)"
| "run_audio_o2p_midi ps err (PC_LOOP, engine) =
     (if ow_engine_get_status engine \<ge> OW_STATUS_WAIT then Some (PC_EVENTS, engine)
      else Some (PC_CHECK, engine))"
| "run_audio_o2p_midi ps err (PC_EVENTS, engine) = Some (PC_LOOP, engine)"
| "run_audio_o2p_midi ps err (PC_CHECK, engine) =
     (if ow_engine_get_status engine \<le> OW_STATUS_STOP then Some (PC_RETURN, engine)
      else Some (PC_REARM, engine))"
| "run_audio_o2p_midi ps err (PC_REARM, engine) =
     Some (PC_DRAIN, ow_engine_set_status engine OW_STATUS_BOOT)"
| "run_audio_o2p_midi ps err (PC_DRAIN, engine) =
     map_option (Pair PC_TOP) (thread_drain engine)"
| "run_audio_o2p_midi ps err (PC_RETURN, engine) = Some (PC_RETURN, engine)"

text \<open>
  What \<^verbatim>\<open>libusb_handle_events_completed\<close> dispatches: the completion of a transfer, with
  the bytes the device sent for an incoming one and the result of the submission that
  ends the callback.
\<close>

datatype usb_event =
  COMPLETE_IN libusb_transfer_status "u8 list" int
  | COMPLETE_OUT libusb_transfer_status int
  | COMPLETE_IN_MIDI libusb_transfer_status nat "u8 list" int
  | COMPLETE_OUT_MIDI libusb_transfer_status

fun usb_callback :: "ob_consts \<Rightarrow> usb_event \<Rightarrow> 'r ow_engine \<Rightarrow> 'r ow_engine option" where
  "usb_callback ps (COMPLETE_IN st rx err) engine =
     cb_xfr_in ps (engine\<lparr>usb_data_in := store (usb_data_in engine) 0 rx\<rparr>) st err"
| "usb_callback ps (COMPLETE_OUT st err) engine = cb_xfr_out ps engine st err"
| "usb_callback ps (COMPLETE_IN_MIDI st actual_length rx err) engine =
     cb_xfr_in_midi ps (engine\<lparr>o2p_midi_data := store (o2p_midi_data engine) 0 rx\<rparr>)
       st actual_length err"
| "usb_callback ps (COMPLETE_OUT_MIDI st) engine = Some (cb_xfr_out_midi engine st)"

text \<open>
  The steps of the running engine: a step of the audio thread; a callback, which runs
  inside \<^verbatim>\<open>libusb_handle_events_completed\<close>; \<^verbatim>\<open>ow_engine_stop\<close>; the submission of a
  MIDI transfer by the thread \<^verbatim>\<open>run_p2o_midi\<close>; and what the host does:
  \<^verbatim>\<open>ow_engine_set_status\<close>, \<^verbatim>\<open>ow_engine_set_p2o_audio_enable\<close>, and its own reads and
  writes of the rings.
\<close>

datatype 'r ow_step =
  STEP_THREAD int
  | STEP_CALLBACK usb_event
  | STEP_STOP
  | STEP_P2O_MIDI_SUBMIT int
  | STEP_SET_STATUS ow_engine_status_t
  | STEP_SET_P2O_AUDIO_ENABLE bool
  | STEP_HOST_RINGS "'r ow_io_buffers \<Rightarrow> 'r ow_io_buffers"

fun engine_step ::
  "ob_consts \<Rightarrow> 'r ow_step \<Rightarrow> audio_pc \<times> 'r ow_engine
    \<Rightarrow> (audio_pc \<times> 'r ow_engine) option" where
  "engine_step ps (STEP_THREAD err) (pc, engine) = run_audio_o2p_midi ps err (pc, engine)"
| "engine_step ps (STEP_CALLBACK ev) (pc, engine) =
     (if pc = PC_EVENTS then map_option (Pair pc) (usb_callback ps ev engine) else None)"
| "engine_step ps STEP_STOP (pc, engine) = Some (pc, ow_engine_stop engine)"
| "engine_step ps (STEP_P2O_MIDI_SUBMIT err) (pc, engine) =
     Some (pc, prepare_cycle_out_midi (engine\<lparr>p2o_midi_ready := False\<rparr>) err)"
| "engine_step ps (STEP_SET_STATUS st) (pc, engine) = Some (pc, ow_engine_set_status engine st)"
| "engine_step ps (STEP_SET_P2O_AUDIO_ENABLE enabled) (pc, engine) =
     Some (pc, ow_engine_set_p2o_audio_enable engine enabled)"
| "engine_step ps (STEP_HOST_RINGS h) (pc, engine) =
     Some (pc, engine\<lparr>io_buffers := map_option h (io_buffers engine)\<rparr>)"

fun engine_steps ::
  "ob_consts \<Rightarrow> 'r ow_step list \<Rightarrow> audio_pc \<times> 'r ow_engine
    \<Rightarrow> (audio_pc \<times> 'r ow_engine) option" where
  "engine_steps ps [] c = Some c"
| "engine_steps ps (x # xs) c =
     (case engine_step ps x c of None \<Rightarrow> None | Some c' \<Rightarrow> engine_steps ps xs c')"

subsection \<open>Activation\<close>

text \<open>
  \<^verbatim>\<open>ow_engine_activate_with_dll\<close>. \<open>midi_thread_ok\<close> and \<open>audio_thread_ok\<close> say
  whether the two calls of \<^verbatim>\<open>pthread_create\<close> succeed. The checks follow the source's
  order, and every return gives back the engine as it is at that line.
\<close>

definition activate_threads ::
  "bool \<Rightarrow> bool \<Rightarrow> 'r ow_engine \<Rightarrow> 'r ow_io_buffers \<Rightarrow> dll_call list option
    \<Rightarrow> ow_err_t \<times> 'r ow_engine" where
  \<comment> \<open>the lines of the function after the MIDI members are checked\<close>
  "activate_threads midi_thread_ok audio_thread_ok engine io dll =
    (if dll \<noteq> None \<and> get_time io = None then (OW_INIT_ERROR_NO_GET_TIME, engine)
     else
       let engine = engine\<lparr>frames := 0, status := OW_STATUS_READY\<rparr> in
       if midi engine \<and> \<not> midi_thread_ok
       then (OW_GENERIC_ERROR,
             engine\<lparr>errors := errors engine @ [''Could not start MIDI thread'']\<rparr>)
       else
         let engine = (if midi engine
                       then engine\<lparr>threads := threads engine @ [P2O_MIDI_THREAD]\<rparr>
                       else engine) in
         if \<not> audio_thread_ok
         then (OW_GENERIC_ERROR,
               engine\<lparr>errors := errors engine @ [''Could not start device thread'']\<rparr>)
         else (OW_OK, engine\<lparr>threads := threads engine @ [AUDIO_O2P_MIDI_THREAD]\<rparr>))"

definition ow_engine_activate_with_dll ::
  "bool \<Rightarrow> bool \<Rightarrow> 'r ow_engine \<Rightarrow> 'r ow_io_buffers \<Rightarrow> dll_call list option
    \<Rightarrow> ow_err_t \<times> 'r ow_engine" where
  "ow_engine_activate_with_dll midi_thread_ok audio_thread_ok engine0 io dll =
    (let engine = engine0\<lparr>io_buffers := Some io, dll_ow := dll\<rparr> in
     if read_space io = None then (OW_INIT_ERROR_NO_READ_SPACE, engine)
     else if write_space io = None then (OW_INIT_ERROR_NO_WRITE_SPACE, engine)
     else if read io = None then (OW_INIT_ERROR_NO_READ, engine)
     else if write_fn io = None then (OW_INIT_ERROR_NO_WRITE, engine)
     else if o2p_audio io = None then (OW_INIT_ERROR_NO_O2P_AUDIO_BUF, engine)
     else if p2o_audio io = None then (OW_INIT_ERROR_NO_P2O_AUDIO_BUF, engine)
     else if get_time io = None \<and> o2p_midi io = None \<and> p2o_midi io = None
     then activate_threads midi_thread_ok audio_thread_ok (engine\<lparr>midi := False\<rparr>) io dll
     else if get_time io = None then (OW_INIT_ERROR_NO_GET_TIME, engine)
     else if o2p_midi io = None then (OW_INIT_ERROR_NO_O2P_MIDI_BUF, engine)
     else if p2o_midi io = None then (OW_INIT_ERROR_NO_P2O_MIDI_BUF, engine)
     else activate_threads midi_thread_ok audio_thread_ok (engine\<lparr>midi := True\<rparr>) io dll)"

definition ow_engine_activate ::
  "bool \<Rightarrow> bool \<Rightarrow> 'r ow_engine \<Rightarrow> 'r ow_io_buffers \<Rightarrow> ow_err_t \<times> 'r ow_engine" where
  "ow_engine_activate midi_thread_ok audio_thread_ok engine io =
     ow_engine_activate_with_dll midi_thread_ok audio_thread_ok engine io None"

subsection \<open>Error strings\<close>

text \<open>
  The table \<^verbatim>\<open>ob_err_strgs\<close> and \<^verbatim>\<open>ow_get_err_str\<close>, which indexes it with the number
  of the kind and no check: \<open>None\<close> is a read outside the array.
\<close>

definition ob_err_strgs :: "string list" where
  "ob_err_strgs =
    [''ok'',
     ''libusb init failed'',
     ''can't open device'',
     ''can't set usb config'',
     ''can't claim usb interface'',
     ''can't set usb alt setting'',
     ''can't cleat endpoint'',
     ''can't prepare transfer'',
     ''can't find a matching device'',
     '''buffer_read_space' not set'',
     '''buffer_write_space' not set'',
     '''buffer_read' not set'',
     '''buffer_write' not set'',
     '''get_time' not set'',
     '''p2o_audio_buf' not set'',
     '''o2p_audio_buf' not set'',
     '''p2o_midi_buf' not set'',
     '''o2p_midi_buf' not set'']"

definition ow_get_err_str :: "nat \<Rightarrow> string option" where
  "ow_get_err_str errcode =
     (if errcode < length ob_err_strgs then Some (ob_err_strgs ! errcode) else None)"

text \<open>
  The kind each string of the table describes, in the order of the table. No string
  describes \<^verbatim>\<open>OW_GENERIC_ERROR\<close>.
\<close>

definition ob_err_kinds :: "ow_err_t list" where
  "ob_err_kinds =
    [OW_OK,
     OW_USB_ERROR_LIBUSB_INIT_FAILED,
     OW_USB_ERROR_CANT_OPEN_DEV,
     OW_USB_ERROR_CANT_SET_USB_CONFIG,
     OW_USB_ERROR_CANT_CLAIM_IF,
     OW_USB_ERROR_CANT_SET_ALT_SETTING,
     OW_USB_ERROR_CANT_CLEAR_EP,
     OW_USB_ERROR_CANT_PREPARE_TRANSFER,
     OW_USB_ERROR_CANT_FIND_DEV,
     OW_INIT_ERROR_NO_READ_SPACE,
     OW_INIT_ERROR_NO_WRITE_SPACE,
     OW_INIT_ERROR_NO_READ,
     OW_INIT_ERROR_NO_WRITE,
     OW_INIT_ERROR_NO_GET_TIME,
     OW_INIT_ERROR_NO_P2O_AUDIO_BUF,
     OW_INIT_ERROR_NO_O2P_AUDIO_BUF,
     OW_INIT_ERROR_NO_P2O_MIDI_BUF,
     OW_INIT_ERROR_NO_O2P_MIDI_BUF]"

text \<open>A numbering of the kinds for the examples: the table's order, then the generic error.\<close>

fun table_order :: "ow_err_t \<Rightarrow> nat" where
  "table_order OW_OK = 0"
| "table_order OW_USB_ERROR_LIBUSB_INIT_FAILED = 1"
| "table_order OW_USB_ERROR_CANT_OPEN_DEV = 2"
| "table_order OW_USB_ERROR_CANT_SET_USB_CONFIG = 3"
| "table_order OW_USB_ERROR_CANT_CLAIM_IF = 4"
| "table_order OW_USB_ERROR_CANT_SET_ALT_SETTING = 5"
| "table_order OW_USB_ERROR_CANT_CLEAR_EP = 6"
| "table_order OW_USB_ERROR_CANT_PREPARE_TRANSFER = 7"
| "table_order OW_USB_ERROR_CANT_FIND_DEV = 8"
| "table_order OW_INIT_ERROR_NO_READ_SPACE = 9"
| "table_order OW_INIT_ERROR_NO_WRITE_SPACE = 10"
| "table_order OW_INIT_ERROR_NO_READ = 11"
| "table_order OW_INIT_ERROR_NO_WRITE = 12"
| "table_order OW_INIT_ERROR_NO_GET_TIME = 13"
| "table_order OW_INIT_ERROR_NO_P2O_AUDIO_BUF = 14"
| "table_order OW_INIT_ERROR_NO_O2P_AUDIO_BUF = 15"
| "table_order OW_INIT_ERROR_NO_P2O_MIDI_BUF = 16"
| "table_order OW_INIT_ERROR_NO_O2P_MIDI_BUF = 17"
| "table_order OW_GENERIC_ERROR = 18"

subsection \<open>Values for the examples\<close>

text \<open>
  A host whose rings count bytes: a ring is the number of bytes it holds and its
  capacity, \<^verbatim>\<open>read\<close> and \<^verbatim>\<open>write\<close> move as many bytes as fit, and a read into a buffer
  stores silence. \<open>blank_engine\<close> is an engine whose memory is all zero.
\<close>

type_synonym demo_ring = "nat \<times> nat"

definition demo_read :: "demo_ring \<Rightarrow> ow_dst \<Rightarrow> nat \<Rightarrow> demo_ring \<times> c_float list" where
  "demo_read r dst n =
     ((fst r - min n (fst r), snd r),
      (case dst of DST_NULL \<Rightarrow> [] | DST_BUF \<Rightarrow> replicate (min n (fst r) div 4) 0))"

definition demo_write :: "demo_ring \<Rightarrow> ow_src \<Rightarrow> nat \<Rightarrow> demo_ring" where
  "demo_write r src n = (fst r + min n (snd r - fst r), snd r)"

definition demo_io :: "demo_ring ow_io_buffers" where
  "demo_io =
     \<lparr>read_space = Some fst,
      write_space = Some (\<lambda>r. snd r - fst r),
      read = Some demo_read,
      write_fn = Some demo_write,
      get_time = Some (\<lambda>_. 0),
      p2o_audio = Some (0, 4096),
      o2p_audio = Some (0, 4096),
      p2o_midi = Some (0, 1024),
      o2p_midi = Some (0, 1024)\<rparr>"

definition blank_engine :: "demo_ring ow_engine" where
  "blank_engine =
     \<lparr>status = OW_STATUS_STOP,
      device_desc = \<lparr>inputs = 0, outputs = 0\<rparr>,
      blocks_per_transfer = 0,
      frames_per_transfer = 0,
      frames = 0,
      usb_data_in = [],
      usb_data_out = [],
      usb_data_in_blk_len = 0,
      usb_data_out_blk_len = 0,
      usb_data_in_len = 0,
      usb_data_out_len = 0,
      p2o_frame_size = 0,
      o2p_frame_size = 0,
      p2o_transfer_size = 0,
      o2p_transfer_size = 0,
      p2o_transfer_buf = [],
      o2p_transfer_buf = [],
      p2o_resampler_buf = [],
      p2o_data = \<lparr>end_of_input = False, input_frames = 0, output_frames = 0,
                   output_frames_gen = 0, src_ratio = DOUBLE_DIV 0 0\<rparr>,
      p2o_midi_data = [],
      o2p_midi_data = [],
      io_buffers = None,
      dll_ow = None,
      p2o_latency = 0,
      p2o_max_latency = 0,
      p2o_audio_enabled = False,
      reading_at_p2o_end = False,
      midi = False,
      p2o_midi_ready = False,
      threads = [],
      submitted = [],
      errors = []\<rparr>"

text \<open>
  Constants for the examples: seven frames in a block and 28 bytes of padding, and
  stand-ins for the collaborators (conversions that keep the bit pattern, a resampler
  that returns silence).
\<close>

definition demo_consts :: ob_consts where
  "demo_consts =
     \<lparr>OB_FRAMES_PER_BLOCK = 7, OB_PADDING_SIZE = 28, OB_SAMPLE_RATE = 48000,
      sizeof_ow_midi_event = 16,
      float_to_sample = (\<lambda>f. f), sample_to_float = (\<lambda>s. s),
      src_simple = (\<lambda>d inp ch. (0, output_frames d, replicate (output_frames d * ch) 0))\<rparr>"

text \<open>
  An engine for the examples: a device with two inputs and four outputs, initialized
  with \<open>n\<close> blocks in a transfer from the blank memory and activated with the example
  host and no DLL. \<open>boot_steps\<close> takes the audio thread from its start into
  \<^verbatim>\<open>libusb_handle_events_completed\<close>: the host sets \<^verbatim>\<open>BOOT\<close>, the thread leaves its
  wait, submits the three first transfers, sets \<^verbatim>\<open>WAIT\<close> and enters the inner loop.
\<close>

definition demo_engine :: "nat \<Rightarrow> demo_ring ow_engine" where
  "demo_engine n =
     init_transfer_buffers
       (init_headers (init_usb_buffers demo_consts \<lparr>inputs = 2, outputs = 4\<rparr> n blank_engine))"

definition demo_active :: "nat \<Rightarrow> demo_ring ow_engine" where
  "demo_active n = snd (ow_engine_activate True True (demo_engine n) demo_io)"

text \<open>
  The same host with a p2o ring of 8 GiB, and the engine activated with it.
\<close>

definition big_io :: "demo_ring ow_io_buffers" where
  "big_io = demo_io\<lparr>p2o_audio := Some (0, 8589934592)\<rparr>"

definition big_active :: "nat \<Rightarrow> demo_ring ow_engine" where
  "big_active n = snd (ow_engine_activate True True (demo_engine n) big_io)"

definition boot_steps :: "'r ow_step list" where
  "boot_steps =
     [STEP_SET_STATUS OW_STATUS_BOOT, STEP_THREAD 0, STEP_THREAD 0, STEP_THREAD 0,
      STEP_THREAD 0, STEP_THREAD 0, STEP_THREAD 0]"

definition out_cycle :: "'r ow_step" where
  "out_cycle = STEP_CALLBACK (COMPLETE_OUT LIBUSB_TRANSFER_COMPLETED 0)"

text \<open>The example host writes \<open>n\<close> bytes of audio to the ring \<^verbatim>\<open>p2o_audio\<close>.\<close>

definition host_writes :: "nat \<Rightarrow> demo_ring ow_io_buffers \<Rightarrow> demo_ring ow_io_buffers" where
  "host_writes n io =
     io\<lparr>p2o_audio :=
          map_option (\<lambda>r. demo_write r (SRC_FLOATS (replicate (n div 4) 0)) n) (p2o_audio io)\<rparr>"

subsection \<open>Predicates of the statements\<close>

text \<open>
  What is on the wire in block \<open>k\<close> of the outgoing buffer: the two bytes of its
  header, its decoded \<^verbatim>\<open>frames\<close> field, and its padding. \<open>out_cycles\<close> counts the
  completions of an outgoing audio transfer among the steps, each of which runs
  \<^verbatim>\<open>set_usb_output_data_blks\<close> once.
\<close>

definition out_blk_header :: "nat \<Rightarrow> 'r ow_engine \<Rightarrow> u8 list" where
  "out_blk_header k e = bytes_at (usb_data_out e) (get_nth_usb_out_blk e k + blk_header) 2"

definition out_blk_frames :: "nat \<Rightarrow> 'r ow_engine \<Rightarrow> 16 word" where
  "out_blk_frames k e =
     be16toh (bytes_at (usb_data_out e) (get_nth_usb_out_blk e k + blk_frames) 2)"

definition out_blk_padding :: "ob_consts \<Rightarrow> nat \<Rightarrow> 'r ow_engine \<Rightarrow> u8 list" where
  "out_blk_padding ps k e =
     bytes_at (usb_data_out e) (get_nth_usb_out_blk e k + blk_padding) (OB_PADDING_SIZE ps)"

text \<open>
  The four bytes on the wire of sample \<open>q\<close> of block \<open>k\<close> of the outgoing buffer,
  the samples of a block counted frame by frame and channel by channel.
\<close>

definition out_blk_sample :: "ob_consts \<Rightarrow> nat \<Rightarrow> nat \<Rightarrow> 'r ow_engine \<Rightarrow> u8 list" where
  "out_blk_sample ps k q e =
     bytes_at (usb_data_out e) (get_nth_usb_out_blk e k + blk_data ps + 4 * q) 4"

fun is_out_cycle :: "'r ow_step \<Rightarrow> bool" where
  "is_out_cycle (STEP_CALLBACK (COMPLETE_OUT st err)) = True"
| "is_out_cycle _ = False"

definition out_cycles :: "'r ow_step list \<Rightarrow> nat" where
  "out_cycles steps = length (filter is_out_cycle steps)"

text \<open>
  The part of the engine the outgoing blocks depend on, and the invariant of the
  outgoing buffer after \<open>t\<close> out-cycles: the layout \<^verbatim>\<open>ow_engine_init\<close> set up, the
  headers and the padding as it left them, the counter, and the \<^verbatim>\<open>frames\<close> fields the
  last out-cycle wrote.
\<close>

definition out_view ::
  "'r ow_engine \<Rightarrow> 16 word \<times> u8 list \<times> nat \<times> nat \<times> ow_device_desc" where
  "out_view e =
     (frames e, usb_data_out e, blocks_per_transfer e, usb_data_out_blk_len e, device_desc e)"

definition out_layout :: "ob_consts \<Rightarrow> 'r ow_engine \<Rightarrow> bool" where
  "out_layout ps e =
     (usb_data_out_blk_len e
        = blk_data ps + 4 * (OB_FRAMES_PER_BLOCK ps * inputs (device_desc e))
      \<and> length (usb_data_out e) = blocks_per_transfer e * usb_data_out_blk_len e
      \<and> (\<forall>k<blocks_per_transfer e.
            out_blk_header k e = htobe16 0x07ff
            \<and> out_blk_padding ps k e = replicate (OB_PADDING_SIZE ps) 0))"

definition out_inv :: "ob_consts \<Rightarrow> nat \<Rightarrow> 'r ow_engine \<Rightarrow> bool" where
  "out_inv ps t e =
     (out_layout ps e
      \<and> frames e = of_nat (t * (blocks_per_transfer e * OB_FRAMES_PER_BLOCK ps))
      \<and> (0 < t \<longrightarrow>
           (\<forall>k<blocks_per_transfer e.
              out_blk_frames k e
                = of_nat (((t - 1) * blocks_per_transfer e + Suc k) * OB_FRAMES_PER_BLOCK ps))))"

text \<open>
  \<open>host_ok\<close>: what an out-cycle needs in order to return: a frame size that is not
  zero and fits an \<^verbatim>\<open>int\<close>, and the host's \<^verbatim>\<open>read_space\<close>, \<^verbatim>\<open>read\<close> and \<^verbatim>\<open>p2o_audio\<close> ring.
\<close>

definition host_ok :: "'r ow_engine \<Rightarrow> bool" where
  "host_ok e =
     (0 < p2o_frame_size e \<and> p2o_frame_size e < 2 ^ 31
      \<and> (case io_buffers e of
            None \<Rightarrow> False
          | Some io \<Rightarrow> read_space io \<noteq> None \<and> read io \<noteq> None \<and> p2o_audio io \<noteq> None))"

text \<open>
  \<open>p2o_buf_zero\<close>: \<^verbatim>\<open>p2o_transfer_buf\<close> holds zeros only. \<open>p2o_phase_inv\<close> is the
  invariant behind it: the buffer has the size of a transfer, and it is all zero unless
  the engine reads at the end of the ring and the audio thread is past the top of its
  outer loop.
\<close>

definition p2o_buf_zero :: "'r ow_engine \<Rightarrow> bool" where
  "p2o_buf_zero e = (p2o_transfer_buf e = replicate (length (p2o_transfer_buf e)) 0)"

definition p2o_view :: "'r ow_engine \<Rightarrow> c_float list \<times> nat \<times> bool" where
  "p2o_view e = (p2o_transfer_buf e, p2o_transfer_size e, reading_at_p2o_end e)"

definition before_loop :: "audio_pc \<Rightarrow> bool" where
  "before_loop pc =
     (pc \<in> {PC_SPIN, PC_PREPARE_IN, PC_PREPARE_OUT, PC_PREPARE_IN_MIDI, PC_TOP})"

definition p2o_phase_inv :: "audio_pc \<Rightarrow> 'r ow_engine \<Rightarrow> bool" where
  "p2o_phase_inv pc e =
     (p2o_transfer_size e div 4 = length (p2o_transfer_buf e)
      \<and> (p2o_buf_zero e \<or> reading_at_p2o_end e \<and> \<not> before_loop pc))"

text \<open>\<open>mem'\<close> is \<open>mem\<close> but for the indices from \<open>lo\<close> up to \<open>hi\<close>.\<close>

definition unchanged_outside :: "'a list \<Rightarrow> 'a list \<Rightarrow> nat \<Rightarrow> nat \<Rightarrow> bool" where
  "unchanged_outside mem mem' lo hi =
     (length mem' = length mem \<and> (\<forall>i. i < lo \<or> hi \<le> i \<longrightarrow> mem' ! i = mem ! i))"


text \<open>
  \<open>engine_only\<close>: a step other than the host's own \<^verbatim>\<open>ow_engine_set_status\<close>.
  \<open>past_boot\<close>: the audio thread is at the test of its inner loop, inside
  \<^verbatim>\<open>libusb_handle_events_completed\<close>, at the test for \<^verbatim>\<open>STOP\<close> after the inner loop,
  or has returned.
\<close>

definition engine_only :: "'r ow_step \<Rightarrow> bool" where
  "engine_only s = (case s of STEP_SET_STATUS st \<Rightarrow> False | _ \<Rightarrow> True)"

definition past_boot :: "audio_pc \<Rightarrow> bool" where
  "past_boot pc = (pc \<in> {PC_LOOP, PC_EVENTS, PC_CHECK, PC_RETURN})"

text \<open>
  The members \<^verbatim>\<open>ow_engine_activate_with_dll\<close> always requires: the four ring functions
  and the two audio rings.
\<close>

definition required_members :: "'r ow_io_buffers \<Rightarrow> bool" where
  "required_members io =
     (read_space io \<noteq> None \<and> write_space io \<noteq> None \<and> read io \<noteq> None
      \<and> write_fn io \<noteq> None \<and> o2p_audio io \<noteq> None \<and> p2o_audio io \<noteq> None)"

subsection \<open>The incoming MIDI events as the specification words them\<close>

text \<open>
  The specification's account of a completed MIDI-in transfer, to be compared with
  \<^verbatim>\<open>cb_xfr_in_midi\<close>. It is written on the bytes of the transfer alone, without the
  functions of the engine: the offsets of the 4-byte strides below \<^verbatim>\<open>actual_length\<close>;
  the event of a stride, the four bytes that start at its offset, stamped with the time;
  the condition for the event of a stride to be written (the status is at least
  \<^verbatim>\<open>RUN\<close>, the first byte of the stride lies in 0x08..0x0F, the ring has room for a
  full event); and the ring after the walk, where an event is written when it meets the
  condition and the ring is left as it is when it does not.
\<close>

definition spec_midi_strides :: "nat \<Rightarrow> nat list" where
  "spec_midi_strides actual_length = map (\<lambda>i. 4 * i) [0..<(actual_length + 3) div 4]"

definition spec_midi_event :: "c_double \<Rightarrow> u8 list \<Rightarrow> nat \<Rightarrow> ow_midi_event" where
  "spec_midi_event now transfer off = \<lparr>time = now, bytes = take 4 (drop off transfer)\<rparr>"

definition spec_midi_accepts ::
  "ob_consts \<Rightarrow> ow_engine_status_t \<Rightarrow> ('r \<Rightarrow> nat) \<Rightarrow> 'r \<Rightarrow> u8 list \<Rightarrow> nat \<Rightarrow> bool" where
  "spec_midi_accepts ps st ws ring transfer off =
     (OW_STATUS_RUN \<le> st \<and> 0x08 \<le> transfer ! off \<and> transfer ! off \<le> 0x0f
      \<and> sizeof_ow_midi_event ps \<le> ws ring)"

definition spec_midi_ring ::
  "ob_consts \<Rightarrow> ow_engine_status_t \<Rightarrow> ('r \<Rightarrow> nat) \<Rightarrow> ('r \<Rightarrow> ow_src \<Rightarrow> nat \<Rightarrow> 'r)
    \<Rightarrow> c_double \<Rightarrow> u8 list \<Rightarrow> nat \<Rightarrow> 'r \<Rightarrow> 'r" where
  "spec_midi_ring ps st ws wr now transfer actual_length ring =
     fold (\<lambda>off ring.
             if spec_midi_accepts ps st ws ring transfer off
             then wr ring (SRC_MIDI_EVENT (spec_midi_event now transfer off))
                    (sizeof_ow_midi_event ps)
             else ring)
       (spec_midi_strides actual_length) ring"

text \<open>
  A host for the examples whose rings keep what is written to them, with room for 40
  bytes, and an engine in \<^verbatim>\<open>RUN\<close> with that host and the 20 bytes of a MIDI-in transfer
  in its buffer: five events with first bytes 0x09, 0x00, 0x0B, 0x0F and 0x05.
\<close>

definition log_space :: "ow_src list \<Rightarrow> nat" where
  "log_space r = 40 - 16 * length r"

definition log_write :: "ow_src list \<Rightarrow> ow_src \<Rightarrow> nat \<Rightarrow> ow_src list" where
  "log_write r src n = r @ [src]"

definition log_io :: "ow_src list ow_io_buffers" where
  "log_io =
     \<lparr>read_space = Some (\<lambda>r. 16 * length r),
      write_space = Some log_space,
      read = Some (\<lambda>r dst n. (r, [])),
      write_fn = Some log_write,
      get_time = Some (\<lambda>_. 0),
      p2o_audio = Some [],
      o2p_audio = Some [],
      p2o_midi = Some [],
      o2p_midi = Some []\<rparr>"

definition midi_engine :: "ow_src list ow_engine" where
  "midi_engine =
     \<lparr>status = OW_STATUS_RUN,
      device_desc = \<lparr>inputs = 0, outputs = 0\<rparr>,
      blocks_per_transfer = 0,
      frames_per_transfer = 0,
      frames = 0,
      usb_data_in = [],
      usb_data_out = [],
      usb_data_in_blk_len = 0,
      usb_data_out_blk_len = 0,
      usb_data_in_len = 0,
      usb_data_out_len = 0,
      p2o_frame_size = 0,
      o2p_frame_size = 0,
      p2o_transfer_size = 0,
      o2p_transfer_size = 0,
      p2o_transfer_buf = [],
      o2p_transfer_buf = [],
      p2o_resampler_buf = [],
      p2o_data = \<lparr>end_of_input = False, input_frames = 0, output_frames = 0,
                   output_frames_gen = 0, src_ratio = DOUBLE_DIV 0 0\<rparr>,
      p2o_midi_data = [],
      o2p_midi_data = [0x09, 0x90, 0x40, 0x7f, 0x00, 0x00, 0x00, 0x00,
                       0x0b, 0xb0, 0x01, 0x02, 0x0f, 0xf8, 0x00, 0x00,
                       0x05, 0x00, 0x00, 0x00],
      io_buffers = Some log_io,
      dll_ow = None,
      p2o_latency = 0,
      p2o_max_latency = 0,
      p2o_audio_enabled = False,
      reading_at_p2o_end = False,
      midi = True,
      p2o_midi_ready = False,
      threads = [],
      submitted = [],
      errors = []\<rparr>"

section \<open>Properties\<close>

subsection \<open>Activation\<close>

lemma activate_stores_arguments:
  "io_buffers (snd (ow_engine_activate_with_dll mt at e io dll)) = Some io
   \<and> dll_ow (snd (ow_engine_activate_with_dll mt at e io dll)) = dll"
  by (simp add: ow_engine_activate_with_dll_def activate_threads_def Let_def)

text \<open>
  C10. Activation is not atomic on error: the arguments \<open>io\<close> and \<open>dll\<close> are stored in
  the engine before any check, so whenever \<^verbatim>\<open>ow_engine_activate_with_dll\<close> returns an
  error kind the engine's \<^verbatim>\<open>io_buffers\<close> and \<^verbatim>\<open>dll_ow\<close> are the rejected arguments,
  not the values the engine had before the call.
\<close>

theorem activate_not_atomic_on_error:
  "fst (ow_engine_activate_with_dll mt at e io dll) \<noteq> OW_OK
   \<Longrightarrow> io_buffers (snd (ow_engine_activate_with_dll mt at e io dll)) = Some io
       \<and> dll_ow (snd (ow_engine_activate_with_dll mt at e io dll)) = dll"
  by (rule activate_stores_arguments)

theorem activate_not_atomic_on_error_witness:
  "fst (ow_engine_activate_with_dll True True blank_engine
          (demo_io\<lparr>read_space := None\<rparr>) (Some []))
     = OW_INIT_ERROR_NO_READ_SPACE
   \<and> io_buffers blank_engine = None
   \<and> dll_ow blank_engine = None
   \<and> io_buffers (snd (ow_engine_activate_with_dll True True blank_engine
          (demo_io\<lparr>read_space := None\<rparr>) (Some [])))
     = Some (demo_io\<lparr>read_space := None\<rparr>)
   \<and> dll_ow (snd (ow_engine_activate_with_dll True True blank_engine
          (demo_io\<lparr>read_space := None\<rparr>) (Some [])))
     = Some []"
proof -
  have err: "fst (ow_engine_activate_with_dll True True blank_engine
          (demo_io\<lparr>read_space := None\<rparr>) (Some [])) = OW_INIT_ERROR_NO_READ_SPACE"
    by (simp add: ow_engine_activate_with_dll_def)
  then have "fst (ow_engine_activate_with_dll True True blank_engine
          (demo_io\<lparr>read_space := None\<rparr>) (Some [])) \<noteq> OW_OK"
    by simp
  from activate_not_atomic_on_error [OF this] err show ?thesis
    by (simp add: blank_engine_def)
qed

lemma activate_required:
  "read_space io = None \<Longrightarrow>
      fst (ow_engine_activate_with_dll mt at e io dll) = OW_INIT_ERROR_NO_READ_SPACE"
  "read_space io \<noteq> None \<Longrightarrow> write_space io = None \<Longrightarrow>
      fst (ow_engine_activate_with_dll mt at e io dll) = OW_INIT_ERROR_NO_WRITE_SPACE"
  "read_space io \<noteq> None \<Longrightarrow> write_space io \<noteq> None \<Longrightarrow> read io = None \<Longrightarrow>
      fst (ow_engine_activate_with_dll mt at e io dll) = OW_INIT_ERROR_NO_READ"
  "read_space io \<noteq> None \<Longrightarrow> write_space io \<noteq> None \<Longrightarrow> read io \<noteq> None
        \<Longrightarrow> write_fn io = None \<Longrightarrow>
      fst (ow_engine_activate_with_dll mt at e io dll) = OW_INIT_ERROR_NO_WRITE"
  "read_space io \<noteq> None \<Longrightarrow> write_space io \<noteq> None \<Longrightarrow> read io \<noteq> None
        \<Longrightarrow> write_fn io \<noteq> None \<Longrightarrow> o2p_audio io = None \<Longrightarrow>
      fst (ow_engine_activate_with_dll mt at e io dll) = OW_INIT_ERROR_NO_O2P_AUDIO_BUF"
  "read_space io \<noteq> None \<Longrightarrow> write_space io \<noteq> None \<Longrightarrow> read io \<noteq> None
        \<Longrightarrow> write_fn io \<noteq> None \<Longrightarrow> o2p_audio io \<noteq> None \<Longrightarrow> p2o_audio io = None \<Longrightarrow>
      fst (ow_engine_activate_with_dll mt at e io dll) = OW_INIT_ERROR_NO_P2O_AUDIO_BUF"
  by (auto simp: ow_engine_activate_with_dll_def Let_def)

lemma activate_optional:
  assumes "required_members io"
  shows
    "get_time io = None \<Longrightarrow> o2p_midi io \<noteq> None \<or> p2o_midi io \<noteq> None \<or> dll \<noteq> None \<Longrightarrow>
           fst (ow_engine_activate_with_dll mt at e io dll) = OW_INIT_ERROR_NO_GET_TIME"
    "get_time io \<noteq> None \<Longrightarrow> o2p_midi io = None \<Longrightarrow>
           fst (ow_engine_activate_with_dll mt at e io dll) = OW_INIT_ERROR_NO_O2P_MIDI_BUF"
    "get_time io \<noteq> None \<Longrightarrow> o2p_midi io \<noteq> None \<Longrightarrow> p2o_midi io = None \<Longrightarrow>
           fst (ow_engine_activate_with_dll mt at e io dll) = OW_INIT_ERROR_NO_P2O_MIDI_BUF"
    "dll = None \<Longrightarrow> at \<Longrightarrow>
           (fst (ow_engine_activate_with_dll mt at e io dll) = OW_OK
              \<and> \<not> midi (snd (ow_engine_activate_with_dll mt at e io dll)))
            = (get_time io = None \<and> o2p_midi io = None \<and> p2o_midi io = None)"
  using assms
  by (auto simp: required_members_def ow_engine_activate_with_dll_def activate_threads_def Let_def)

lemma activate_threads_unchanged:
  "fst (ow_engine_activate_with_dll mt at e io dll) \<notin> {OW_OK, OW_GENERIC_ERROR} \<Longrightarrow>
        threads (snd (ow_engine_activate_with_dll mt at e io dll)) = threads e"
  by (auto simp: ow_engine_activate_with_dll_def activate_threads_def Let_def split: if_splits)

text \<open>
  C7, as the code has it. Each required member that is missing, the ones checked
  before it being present, gives its own kind: \<^verbatim>\<open>read_space\<close>, \<^verbatim>\<open>write_space\<close>,
  \<^verbatim>\<open>read\<close>, \<^verbatim>\<open>write\<close>, \<^verbatim>\<open>o2p_audio\<close>, \<^verbatim>\<open>p2o_audio\<close>, in this order. With these six
  present: a missing \<^verbatim>\<open>get_time\<close> gives \<^verbatim>\<open>NO_GET_TIME\<close> as soon as a MIDI ring or a
  DLL is given; with \<^verbatim>\<open>get_time\<close> present a missing \<^verbatim>\<open>o2p_midi\<close> gives
  \<^verbatim>\<open>NO_O2P_MIDI_BUF\<close>, and then a missing \<^verbatim>\<open>p2o_midi\<close> gives \<^verbatim>\<open>NO_P2O_MIDI_BUF\<close>;
  and when no DLL is attached and the audio thread starts, activation succeeds with MIDI
  disabled if and only if \<^verbatim>\<open>get_time\<close>, \<^verbatim>\<open>o2p_midi\<close> and \<^verbatim>\<open>p2o_midi\<close> are all absent.
  Whenever one of the nine missing-member kinds is returned, no thread has been started.
\<close>

theorem activate_missing_members:
  "(read_space io = None \<longrightarrow>
      fst (ow_engine_activate_with_dll mt at e io dll) = OW_INIT_ERROR_NO_READ_SPACE)
   \<and> (read_space io \<noteq> None \<and> write_space io = None \<longrightarrow>
      fst (ow_engine_activate_with_dll mt at e io dll) = OW_INIT_ERROR_NO_WRITE_SPACE)
   \<and> (read_space io \<noteq> None \<and> write_space io \<noteq> None \<and> read io = None \<longrightarrow>
      fst (ow_engine_activate_with_dll mt at e io dll) = OW_INIT_ERROR_NO_READ)
   \<and> (read_space io \<noteq> None \<and> write_space io \<noteq> None \<and> read io \<noteq> None
        \<and> write_fn io = None \<longrightarrow>
      fst (ow_engine_activate_with_dll mt at e io dll) = OW_INIT_ERROR_NO_WRITE)
   \<and> (read_space io \<noteq> None \<and> write_space io \<noteq> None \<and> read io \<noteq> None
        \<and> write_fn io \<noteq> None \<and> o2p_audio io = None \<longrightarrow>
      fst (ow_engine_activate_with_dll mt at e io dll) = OW_INIT_ERROR_NO_O2P_AUDIO_BUF)
   \<and> (read_space io \<noteq> None \<and> write_space io \<noteq> None \<and> read io \<noteq> None
        \<and> write_fn io \<noteq> None \<and> o2p_audio io \<noteq> None \<and> p2o_audio io = None \<longrightarrow>
      fst (ow_engine_activate_with_dll mt at e io dll) = OW_INIT_ERROR_NO_P2O_AUDIO_BUF)
   \<and> (required_members io
        \<and> get_time io = None \<and> (o2p_midi io \<noteq> None \<or> p2o_midi io \<noteq> None \<or> dll \<noteq> None) \<longrightarrow>
      fst (ow_engine_activate_with_dll mt at e io dll) = OW_INIT_ERROR_NO_GET_TIME)
   \<and> (required_members io \<and> get_time io \<noteq> None \<and> o2p_midi io = None \<longrightarrow>
      fst (ow_engine_activate_with_dll mt at e io dll) = OW_INIT_ERROR_NO_O2P_MIDI_BUF)
   \<and> (required_members io \<and> get_time io \<noteq> None \<and> o2p_midi io \<noteq> None
        \<and> p2o_midi io = None \<longrightarrow>
      fst (ow_engine_activate_with_dll mt at e io dll) = OW_INIT_ERROR_NO_P2O_MIDI_BUF)
   \<and> (required_members io \<and> dll = None \<and> at \<longrightarrow>
        (fst (ow_engine_activate_with_dll mt at e io dll) = OW_OK
           \<and> \<not> midi (snd (ow_engine_activate_with_dll mt at e io dll)))
        = (get_time io = None \<and> o2p_midi io = None \<and> p2o_midi io = None))
   \<and> (fst (ow_engine_activate_with_dll mt at e io dll) \<notin> {OW_OK, OW_GENERIC_ERROR} \<longrightarrow>
        threads (snd (ow_engine_activate_with_dll mt at e io dll)) = threads e)"
proof -
  have opt: "required_members io \<and> dll = None \<and> at \<longrightarrow>
        (fst (ow_engine_activate_with_dll mt at e io dll) = OW_OK
           \<and> \<not> midi (snd (ow_engine_activate_with_dll mt at e io dll)))
        = (get_time io = None \<and> o2p_midi io = None \<and> p2o_midi io = None)"
    using activate_optional(4) [where io = io and dll = dll and at = at and mt = mt and e = e]
    by blast
  have thr: "fst (ow_engine_activate_with_dll mt at e io dll) \<notin> {OW_OK, OW_GENERIC_ERROR} \<longrightarrow>
        threads (snd (ow_engine_activate_with_dll mt at e io dll)) = threads e"
    using activate_threads_unchanged [where io = io and dll = dll and at = at and mt = mt and e = e]
    by blast
  note req = activate_required [where io = io and dll = dll and at = at and mt = mt and e = e]
  note optl = activate_optional(1-3) [where io = io and dll = dll and at = at and mt = mt and e = e]
  show ?thesis
    apply (intro conjI)
    subgoal using req(1) by blast
    subgoal using req(2) by blast
    subgoal using req(3) by blast
    subgoal using req(4) by blast
    subgoal using req(5) by blast
    subgoal using req(6) by blast
    subgoal using optl(1) by blast
    subgoal using optl(2) by blast
    subgoal using optl(3) by blast
    subgoal using opt by blast
    subgoal using thr by blast
    done
qed

theorem activate_missing_members_witness:
  "fst (ow_engine_activate_with_dll True True blank_engine
          (demo_io\<lparr>read_space := None\<rparr>) None) = OW_INIT_ERROR_NO_READ_SPACE
   \<and> fst (ow_engine_activate_with_dll True True blank_engine
          (demo_io\<lparr>write_space := None\<rparr>) None) = OW_INIT_ERROR_NO_WRITE_SPACE
   \<and> fst (ow_engine_activate_with_dll True True blank_engine
          (demo_io\<lparr>read := None\<rparr>) None) = OW_INIT_ERROR_NO_READ
   \<and> fst (ow_engine_activate_with_dll True True blank_engine
          (demo_io\<lparr>write_fn := None\<rparr>) None) = OW_INIT_ERROR_NO_WRITE
   \<and> fst (ow_engine_activate_with_dll True True blank_engine
          (demo_io\<lparr>o2p_audio := None\<rparr>) None) = OW_INIT_ERROR_NO_O2P_AUDIO_BUF
   \<and> fst (ow_engine_activate_with_dll True True blank_engine
          (demo_io\<lparr>p2o_audio := None\<rparr>) None) = OW_INIT_ERROR_NO_P2O_AUDIO_BUF
   \<and> fst (ow_engine_activate_with_dll True True blank_engine
          (demo_io\<lparr>get_time := None\<rparr>) None) = OW_INIT_ERROR_NO_GET_TIME
   \<and> fst (ow_engine_activate_with_dll True True blank_engine
          (demo_io\<lparr>o2p_midi := None\<rparr>) None) = OW_INIT_ERROR_NO_O2P_MIDI_BUF
   \<and> fst (ow_engine_activate_with_dll True True blank_engine
          (demo_io\<lparr>p2o_midi := None\<rparr>) None) = OW_INIT_ERROR_NO_P2O_MIDI_BUF
   \<and> fst (ow_engine_activate_with_dll True True blank_engine
          (demo_io\<lparr>get_time := None, p2o_midi := None, o2p_midi := None\<rparr>) None) = OW_OK
   \<and> \<not> midi (snd (ow_engine_activate_with_dll True True blank_engine
          (demo_io\<lparr>get_time := None, p2o_midi := None, o2p_midi := None\<rparr>) None))
   \<and> threads (snd (ow_engine_activate_with_dll True True blank_engine
          (demo_io\<lparr>p2o_midi := None\<rparr>) None)) = []"
proof -
  have 1: "fst (ow_engine_activate_with_dll True True blank_engine
          (demo_io\<lparr>read_space := None\<rparr>) None) = OW_INIT_ERROR_NO_READ_SPACE"
    using activate_missing_members [of "demo_io\<lparr>read_space := None\<rparr>" True True blank_engine None]
    by (simp add: demo_io_def)
  have 2: "fst (ow_engine_activate_with_dll True True blank_engine
          (demo_io\<lparr>write_space := None\<rparr>) None) = OW_INIT_ERROR_NO_WRITE_SPACE"
    using activate_missing_members [of "demo_io\<lparr>write_space := None\<rparr>" True True blank_engine None]
    by (simp add: demo_io_def)
  have 3: "fst (ow_engine_activate_with_dll True True blank_engine
          (demo_io\<lparr>read := None\<rparr>) None) = OW_INIT_ERROR_NO_READ"
    using activate_missing_members [of "demo_io\<lparr>read := None\<rparr>" True True blank_engine None]
    by (simp add: demo_io_def)
  have 4: "fst (ow_engine_activate_with_dll True True blank_engine
          (demo_io\<lparr>write_fn := None\<rparr>) None) = OW_INIT_ERROR_NO_WRITE"
    using activate_missing_members [of "demo_io\<lparr>write_fn := None\<rparr>" True True blank_engine None]
    by (simp add: demo_io_def)
  have 5: "fst (ow_engine_activate_with_dll True True blank_engine
          (demo_io\<lparr>o2p_audio := None\<rparr>) None) = OW_INIT_ERROR_NO_O2P_AUDIO_BUF"
    using activate_missing_members [of "demo_io\<lparr>o2p_audio := None\<rparr>" True True blank_engine None]
    by (simp add: demo_io_def)
  have 6: "fst (ow_engine_activate_with_dll True True blank_engine
          (demo_io\<lparr>p2o_audio := None\<rparr>) None) = OW_INIT_ERROR_NO_P2O_AUDIO_BUF"
    using activate_missing_members [of "demo_io\<lparr>p2o_audio := None\<rparr>" True True blank_engine None]
    by (simp add: demo_io_def)
  have 7: "fst (ow_engine_activate_with_dll True True blank_engine
          (demo_io\<lparr>get_time := None\<rparr>) None) = OW_INIT_ERROR_NO_GET_TIME"
    using activate_missing_members [of "demo_io\<lparr>get_time := None\<rparr>" True True blank_engine None]
    by (simp add: demo_io_def required_members_def)
  have 8: "fst (ow_engine_activate_with_dll True True blank_engine
          (demo_io\<lparr>o2p_midi := None\<rparr>) None) = OW_INIT_ERROR_NO_O2P_MIDI_BUF"
    using activate_missing_members [of "demo_io\<lparr>o2p_midi := None\<rparr>" True True blank_engine None]
    by (simp add: demo_io_def required_members_def)
  have 9: "fst (ow_engine_activate_with_dll True True blank_engine
          (demo_io\<lparr>p2o_midi := None\<rparr>) None) = OW_INIT_ERROR_NO_P2O_MIDI_BUF"
    using activate_missing_members [of "demo_io\<lparr>p2o_midi := None\<rparr>" True True blank_engine None]
    by (simp add: demo_io_def required_members_def)
  have 10: "fst (ow_engine_activate_with_dll True True blank_engine
          (demo_io\<lparr>get_time := None, p2o_midi := None, o2p_midi := None\<rparr>) None) = OW_OK
     \<and> \<not> midi (snd (ow_engine_activate_with_dll True True blank_engine
          (demo_io\<lparr>get_time := None, p2o_midi := None, o2p_midi := None\<rparr>) None))"
    using activate_missing_members
      [of "demo_io\<lparr>get_time := None, p2o_midi := None, o2p_midi := None\<rparr>"
          True True blank_engine None]
    by (simp add: demo_io_def required_members_def)
  have 11: "threads (snd (ow_engine_activate_with_dll True True blank_engine
          (demo_io\<lparr>p2o_midi := None\<rparr>) None)) = []"
    using activate_missing_members [of "demo_io\<lparr>p2o_midi := None\<rparr>" True True blank_engine None] 9
    by (simp add: blank_engine_def)
  from 1 2 3 4 5 6 7 8 9 10 11 show ?thesis
    by blast
qed

text \<open>
  The claim as written fails where a DLL is attached: the six required members are
  there, \<^verbatim>\<open>get_time\<close> and both MIDI rings are absent, and activation does not succeed.
\<close>

theorem activate_with_dll_counterexample:
  "required_members (demo_io\<lparr>get_time := None, p2o_midi := None, o2p_midi := None\<rparr>)
   \<and> get_time (demo_io\<lparr>get_time := None, p2o_midi := None, o2p_midi := None\<rparr>) = None
   \<and> o2p_midi (demo_io\<lparr>get_time := None, p2o_midi := None, o2p_midi := None\<rparr>) = None
   \<and> p2o_midi (demo_io\<lparr>get_time := None, p2o_midi := None, o2p_midi := None\<rparr>) = None
   \<and> fst (ow_engine_activate_with_dll True True blank_engine
          (demo_io\<lparr>get_time := None, p2o_midi := None, o2p_midi := None\<rparr>) (Some []))
       = OW_INIT_ERROR_NO_GET_TIME"
  by (simp add: required_members_def demo_io_def ow_engine_activate_with_dll_def
      activate_threads_def)

subsection \<open>Error strings\<close>

lemma table_order_inj: "inj table_order"
  by (rule injI) (case_tac x; case_tac y; simp)

lemma generic_not_described: "OW_GENERIC_ERROR \<notin> set ob_err_kinds"
  by (simp add: ob_err_kinds_def)

lemma length_ob_err_strgs: "length ob_err_strgs = 18"
  by (simp add: ob_err_strgs_def)

text \<open>
  Whatever numbers engine.h gives the kinds, as long as different kinds have different
  numbers, some kind indexes outside the table: there are nineteen kinds and eighteen
  strings.
\<close>

lemma some_kind_outside_table:
  fixes code :: "ow_err_t \<Rightarrow> nat"
  assumes inj: "inj code"
  shows "\<exists>k. ow_get_err_str (code k) = None"
proof (rule ccontr)
  assume "\<not> ?thesis"
  then have "\<forall>k. code k < length ob_err_strgs"
    by (auto simp: ow_get_err_str_def split: if_splits)
  then have "\<forall>k. code k < 18"
    by (simp add: length_ob_err_strgs)
  then have sub: "code ` (set ob_err_kinds \<union> {OW_GENERIC_ERROR}) \<subseteq> {..<18}"
    by blast
  have "card (code ` (set ob_err_kinds \<union> {OW_GENERIC_ERROR}))
      = card (set ob_err_kinds \<union> {OW_GENERIC_ERROR})"
    using inj by (intro card_image) (auto simp: inj_on_def dest: injD)
  also have "\<dots> = 19"
    by (simp add: ob_err_kinds_def)
  finally have "card (code ` (set ob_err_kinds \<union> {OW_GENERIC_ERROR})) = 19" .
  moreover have "card (code ` (set ob_err_kinds \<union> {OW_GENERIC_ERROR})) \<le> card {..<18::nat}"
    using sub by (intro card_mono) auto
  ultimately show False
    by simp
qed

text \<open>
  C8 fails for \<^verbatim>\<open>OW_GENERIC_ERROR\<close>. Let \<open>code\<close> be the numbers of the kinds, different
  for different kinds. If the table is right for the eighteen kinds it has a string for
  (the kind of the string at index \<open>i\<close> has the number \<open>i\<close>), then
  \<^verbatim>\<open>ow_get_err_str (OW_GENERIC_ERROR)\<close> reads outside the table.
\<close>

theorem ow_get_err_str_generic_error:
  assumes inj: "inj code"
    and aligned: "map code ob_err_kinds = [0..<length ob_err_strgs]"
  shows "ow_get_err_str (code OW_GENERIC_ERROR) = None"
proof -
  have "code OW_GENERIC_ERROR \<notin> code ` set ob_err_kinds"
    using inj generic_not_described by (auto dest: injD)
  then have "code OW_GENERIC_ERROR \<notin> set (map code ob_err_kinds)"
    by simp
  then have "\<not> code OW_GENERIC_ERROR < length ob_err_strgs"
    unfolding aligned by simp
  then show ?thesis
    by (simp add: ow_get_err_str_def)
qed

theorem ow_get_err_str_generic_error_witness:
  "inj table_order
   \<and> map table_order ob_err_kinds = [0..<length ob_err_strgs]
   \<and> map (ow_get_err_str \<circ> table_order) ob_err_kinds = map Some ob_err_strgs
   \<and> ow_get_err_str (table_order OW_GENERIC_ERROR) = None"
proof -
  have a: "map table_order ob_err_kinds = [0..<length ob_err_strgs]"
    by (simp add: ob_err_kinds_def ob_err_strgs_def upt_rec)
  have b: "map (ow_get_err_str \<circ> table_order) ob_err_kinds = map Some ob_err_strgs"
    by (simp add: ob_err_kinds_def ob_err_strgs_def ow_get_err_str_def)
  from ow_get_err_str_generic_error [OF table_order_inj a] table_order_inj a b
  show ?thesis
    by simp
qed

subsection \<open>The status after a stop\<close>

lemma set_block_shape:
  "\<exists>fr mem f'. set_block ps i (e, f) = (e\<lparr>frames := fr, usb_data_out := mem\<rparr>, f')"
  by (auto simp: set_block_def Let_def split: prod.splits)

lemma fold_set_block_shape:
  "\<exists>fr mem f'. fold (set_block ps) xs (e, f) = (e\<lparr>frames := fr, usb_data_out := mem\<rparr>, f')"
proof (induction xs arbitrary: e f)
  case Nil
  have "e = e\<lparr>frames := frames e, usb_data_out := usb_data_out e\<rparr>" by simp
  then show ?case by (metis fold_simps(1))
next
  case (Cons x xs)
  obtain fr mem f' where 1: "set_block ps x (e, f) = (e\<lparr>frames := fr, usb_data_out := mem\<rparr>, f')"
    using set_block_shape by blast
  obtain fr2 mem2 f2 where 2: "fold (set_block ps) xs (e\<lparr>frames := fr, usb_data_out := mem\<rparr>, f')
      = (e\<lparr>frames := fr, usb_data_out := mem\<rparr>\<lparr>frames := fr2, usb_data_out := mem2\<rparr>, f2)"
    using Cons.IH by blast
  have "fold (set_block ps) (x # xs) (e, f) = (e\<lparr>frames := fr2, usb_data_out := mem2\<rparr>, f2)"
    using 1 2 by simp
  then show ?case by blast
qed

lemma set_blocks_shape:
  "\<exists>fr mem. set_blocks ps e = e\<lparr>frames := fr, usb_data_out := mem\<rparr>"
proof -
  obtain fr mem f' where "fold (set_block ps) [0..<blocks_per_transfer e] (e, 0)
      = (e\<lparr>frames := fr, usb_data_out := mem\<rparr>, f')"
    using fold_set_block_shape by blast
  then show ?thesis by (auto simp: set_blocks_def)
qed

lemma status_set_blocks [simp]: "status (set_blocks ps e) = status e"
proof -
  obtain fr mem where "set_blocks ps e = e\<lparr>frames := fr, usb_data_out := mem\<rparr>"
    using set_blocks_shape by blast
  then show ?thesis by simp
qed

lemma status_p2o_underflow:
  "p2o_underflow ps e io ring rs = Some e' \<Longrightarrow> status e' = status e"
  by (auto simp: p2o_underflow_def Let_def error_print_def split: if_splits prod.splits Option.bind_splits)

lemma status_set_usb_output_data_blks:
  "set_usb_output_data_blks ps e = Some e' \<Longrightarrow> status e' = status e"
  by (auto simp: set_usb_output_data_blks_def Let_def split: if_splits prod.splits Option.bind_splits
      dest!: status_p2o_underflow)

lemma status_set_usb_input_data_blks:
  "set_usb_input_data_blks ps e = Some e' \<Longrightarrow> status e' = status e"
  by (auto simp: set_usb_input_data_blks_def Let_def error_print_def
      split: if_splits prod.splits option.splits Option.bind_splits)

lemma status_prepare_cycle:
  "status (prepare_cycle_in e err) = (if err \<noteq> 0 then OW_STATUS_ERROR else status e)"
  "status (prepare_cycle_out e err) = (if err \<noteq> 0 then OW_STATUS_ERROR else status e)"
  "status (prepare_cycle_in_midi e err) = (if err \<noteq> 0 then OW_STATUS_ERROR else status e)"
  "status (prepare_cycle_out_midi e err) = (if err \<noteq> 0 then OW_STATUS_ERROR else status e)"
  by (simp_all add: prepare_cycle_in_def prepare_cycle_out_def prepare_cycle_in_midi_def
      prepare_cycle_out_midi_def ow_engine_set_status_def error_print_def Let_def)

lemma status_cb_xfr_in_midi_event:
  "cb_xfr_in_midi_event ps now len e = Some e' \<Longrightarrow> status e' = status e"
  by (auto simp: cb_xfr_in_midi_event_def Let_def error_print_def
      split: if_splits Option.bind_splits)

lemma status_cb_xfr_in_midi_loop:
  "cb_xfr_in_midi_loop ps now al len e = Some e' \<Longrightarrow> status e' = status e"
proof (induction ps now al len e rule: cb_xfr_in_midi_loop.induct)
  case (1 ps now al len e)
  show ?case
  proof (cases "len < al")
    case True
    then obtain e1 where a: "cb_xfr_in_midi_event ps now len e = Some e1"
      and b: "cb_xfr_in_midi_loop ps now al (len + OB_MIDI_EVENT_SIZE) e1 = Some e'"
      using "1.prems" by (auto simp: cb_xfr_in_midi_loop.simps [of ps now al len e] split: option.splits)
    from "1.IH" [OF True a b] status_cb_xfr_in_midi_event [OF a] show ?thesis by simp
  next
    case False
    then show ?thesis using "1.prems" by (simp add: cb_xfr_in_midi_loop.simps [of ps now al len e])
  qed
qed

lemma status_usb_callback:
  "usb_callback ps ev e = Some e' \<Longrightarrow> status e' = status e \<or> status e' = OW_STATUS_ERROR"
  by (cases ev)
     (auto simp: cb_xfr_in_def cb_xfr_out_def cb_xfr_in_midi_def cb_xfr_out_midi_def
        status_prepare_cycle error_print_def Let_def
      split: if_splits Option.bind_splits
      dest!: status_set_usb_input_data_blks status_set_usb_output_data_blks
        status_cb_xfr_in_midi_loop)

lemma le_STOP_iff: "(st \<le> OW_STATUS_STOP) = (st = OW_STATUS_STOP \<or> st = OW_STATUS_ERROR)"
  by (cases st) (simp_all add: less_eq_ow_engine_status_t_def)

lemma thread_step_after_stop:
  assumes "status e \<le> OW_STATUS_STOP" and "past_boot pc"
    and "run_audio_o2p_midi ps err (pc, e) = Some (pc', e')"
  shows "status e' \<le> OW_STATUS_STOP \<and> past_boot pc'"
  using assms
  by (cases pc)
     (auto simp: past_boot_def ow_engine_get_status_def less_eq_ow_engine_status_t_def
      split: if_splits)

lemma engine_step_after_stop:
  assumes "status e \<le> OW_STATUS_STOP" and "past_boot pc" and "engine_only s"
    and "engine_step ps s (pc, e) = Some (pc', e')"
  shows "status e' \<le> OW_STATUS_STOP \<and> past_boot pc'"
proof (cases s)
  case (STEP_THREAD err)
  then show ?thesis using assms thread_step_after_stop [of e pc ps err pc' e'] by simp
next
  case (STEP_CALLBACK ev)
  then obtain "usb_callback ps ev e = Some e'" and "pc' = pc"
    using assms(4) by (auto split: if_splits)
  then show ?thesis
    using status_usb_callback [of ps ev e e'] assms(1,2) by (auto simp: le_STOP_iff)
next
  case STEP_STOP
  then show ?thesis
    using assms by (auto simp: ow_engine_stop_def ow_engine_set_status_def)
next
  case (STEP_P2O_MIDI_SUBMIT err)
  then show ?thesis
    using assms by (auto simp: status_prepare_cycle le_STOP_iff split: if_splits)
next
  case (STEP_SET_STATUS st)
  then show ?thesis using assms(3) by (simp add: engine_only_def)
next
  case (STEP_SET_P2O_AUDIO_ENABLE b)
  then show ?thesis
    using assms by (auto simp: ow_engine_set_p2o_audio_enable_def)
next
  case (STEP_HOST_RINGS h)
  then show ?thesis using assms by auto
qed

text \<open>
  Where the engine does keep a stop. Once the status is \<^verbatim>\<open>STOP\<close> (or \<^verbatim>\<open>ERROR\<close>)
  while the audio thread is at the test of its inner loop, in the event handling, at the
  test for \<^verbatim>\<open>STOP\<close> or returned (\<open>past_boot\<close>), no later
  step of the engine ever makes the status greater than \<^verbatim>\<open>STOP\<close>: not a step of the
  audio thread, a completion callback, \<^verbatim>\<open>ow_engine_stop\<close>, a MIDI submission, nor
  what the host does to the rings and to the enable flag. Only the host's own
  \<^verbatim>\<open>ow_engine_set_status\<close> is left out.
\<close>

lemma stop_is_final:
  assumes "status e \<le> OW_STATUS_STOP" and "past_boot pc" and "list_all engine_only steps"
    and "engine_steps ps steps (pc, e) = Some (pc', e')"
  shows "status e' \<le> OW_STATUS_STOP"
proof -
  have "status e' \<le> OW_STATUS_STOP \<and> past_boot pc'"
    using assms
  proof (induction steps arbitrary: pc e)
    case Nil
    then show ?case by simp
  next
    case (Cons s steps)
    from Cons.prems(4) obtain pc1 e1 where 1: "engine_step ps s (pc, e) = Some (pc1, e1)"
      and 2: "engine_steps ps steps (pc1, e1) = Some (pc', e')"
      by (auto split: option.splits)
    from Cons.prems(3) have 3: "engine_only s" and 4: "list_all engine_only steps"
      by simp_all
    from engine_step_after_stop [OF Cons.prems(1,2) 3 1]
    have "status e1 \<le> OW_STATUS_STOP" and "past_boot pc1" by simp_all
    from Cons.IH [OF this 4 2] show ?case .
  qed
  then show ?thesis ..
qed

lemma stop_is_final_witness:
  "status (ow_engine_stop (blank_engine\<lparr>status := OW_STATUS_RUN\<rparr>)) \<le> OW_STATUS_STOP
   \<and> past_boot PC_EVENTS
   \<and> list_all engine_only [STEP_THREAD 0, STEP_P2O_MIDI_SUBMIT 1, STEP_THREAD 0, STEP_THREAD 0 :: demo_ring ow_step]
   \<and> map_option (status \<circ> snd) (engine_steps demo_consts [STEP_THREAD 0, STEP_P2O_MIDI_SUBMIT 1, STEP_THREAD 0, STEP_THREAD 0]
       (PC_EVENTS, ow_engine_stop (blank_engine\<lparr>status := OW_STATUS_RUN\<rparr>)))
     = Some OW_STATUS_ERROR
   \<and> OW_STATUS_ERROR \<le> OW_STATUS_STOP"
proof -
  have a: "status (ow_engine_stop (blank_engine\<lparr>status := OW_STATUS_RUN\<rparr>)) \<le> OW_STATUS_STOP"
    by (simp add: ow_engine_stop_def ow_engine_set_status_def)
  have b: "past_boot PC_EVENTS" by (simp add: past_boot_def)
  have c: "list_all engine_only [STEP_THREAD 0, STEP_P2O_MIDI_SUBMIT 1, STEP_THREAD 0, STEP_THREAD 0 :: demo_ring ow_step]"
    by (simp add: engine_only_def)
  obtain pc' e' where d: "engine_steps demo_consts [STEP_THREAD 0, STEP_P2O_MIDI_SUBMIT 1, STEP_THREAD 0, STEP_THREAD 0]
       (PC_EVENTS, ow_engine_stop (blank_engine\<lparr>status := OW_STATUS_RUN\<rparr>)) = Some (pc', e')"
    and e: "status e' = OW_STATUS_ERROR"
    by (simp add: ow_engine_stop_def ow_engine_set_status_def ow_engine_get_status_def
        status_prepare_cycle less_eq_ow_engine_status_t_def)
  from stop_is_final [OF a b c d] a b c d e show ?thesis
    by simp
qed

subsection \<open>Memory and the blocks of a transfer\<close>

lemma length_store [simp]: "length (store mem off xs) = length mem"
  by (induction xs arbitrary: mem off) simp_all

lemma store_nth_below: "i < off \<Longrightarrow> store mem off xs ! i = mem ! i"
  by (induction xs arbitrary: mem off) simp_all

lemma store_nth_above: "off + length xs \<le> i \<Longrightarrow> store mem off xs ! i = mem ! i"
  by (induction xs arbitrary: mem off) simp_all

lemma store_nth_in:
  "off + length xs \<le> length mem \<Longrightarrow> i < length xs \<Longrightarrow> store mem off xs ! (off + i) = xs ! i"
proof (induction xs arbitrary: mem off i)
  case Nil
  then show ?case by simp
next
  case (Cons x xs)
  show ?case
  proof (cases i)
    case 0
    then show ?thesis using Cons.prems by (simp add: store_nth_below)
  next
    case (Suc j)
    then have "store (mem[off := x]) (Suc off) xs ! (Suc off + j) = xs ! j"
      using Cons.prems by (intro Cons.IH) simp_all
    then show ?thesis using Suc by simp
  qed
qed

lemma bytes_at_store:
  "off + length xs \<le> length mem \<Longrightarrow> n = length xs \<Longrightarrow> bytes_at (store mem off xs) off n = xs"
  by (auto simp: bytes_at_def store_nth_in intro: nth_equalityI)

lemma bytes_at_eqI:
  "(\<And>i. i < n \<Longrightarrow> a ! (off + i) = b ! (off + i)) \<Longrightarrow> bytes_at a off n = bytes_at b off n"
  by (simp add: bytes_at_def)

lemma length_htobe [simp]: "length (htobe16 w) = 2" "length (htobe32 v) = 4"
  by (simp_all add: htobe16_def htobe32_def)

lemma be16toh_htobe16 [simp]: "be16toh (htobe16 w) = w"
  unfolding be16toh_def htobe16_def
  apply (rule bit_word_eqI)
  apply (auto simp: bit_simps)
  done

lemma unchanged_outside_refl: "unchanged_outside mem mem lo hi"
  by (simp add: unchanged_outside_def)

lemma unchanged_outside_store:
  "lo \<le> off \<Longrightarrow> off + length xs \<le> hi \<Longrightarrow> unchanged_outside mem (store mem off xs) lo hi"
  by (auto simp: unchanged_outside_def store_nth_below store_nth_above)

lemma unchanged_outside_nth:
  "unchanged_outside a b lo hi \<Longrightarrow> i < lo \<or> hi \<le> i \<Longrightarrow> b ! i = a ! i"
  by (auto simp: unchanged_outside_def)

lemma unchanged_outside_length:
  "unchanged_outside a b lo hi \<Longrightarrow> length b = length a"
  by (simp add: unchanged_outside_def)

lemma unchanged_outside_trans:
  assumes ab: "unchanged_outside a b lo hi" and bc: "unchanged_outside b c lo' hi'"
    and bounds: "l \<le> lo" "l \<le> lo'" "hi \<le> h" "hi' \<le> h"
  shows "unchanged_outside a c l h"
proof -
  have "length c = length a"
    using ab bc by (simp add: unchanged_outside_def)
  moreover have "c ! i = a ! i" if "i < l \<or> h \<le> i" for i
  proof -
    from that bounds have 1: "i < lo \<or> hi \<le> i" and 2: "i < lo' \<or> hi' \<le> i"
      by linarith+
    show ?thesis
      using unchanged_outside_nth [OF ab 1] unchanged_outside_nth [OF bc 2] by simp
  qed
  ultimately show ?thesis
    by (simp add: unchanged_outside_def)
qed

lemma samples_sweep:
  assumes "fold (\<lambda>k. set_sample ps buf) xs (mem, f, s) = (mem', f', s')"
  shows "f' = f + length xs \<and> s' = s + 4 * length xs
         \<and> unchanged_outside mem mem' s (s + 4 * length xs)"
  using assms
proof (induction xs arbitrary: mem f s)
  case Nil
  then show ?case by (simp add: unchanged_outside_refl)
next
  case (Cons x xs)
  define v where "v = htobe32 (float_to_sample ps (buf ! f))"
  from Cons.prems have "fold (\<lambda>k. set_sample ps buf) xs (store mem s v, Suc f, s + 4)
      = (mem', f', s')"
    by (simp add: set_sample_def v_def)
  from Cons.IH [OF this] have a: "f' = Suc f + length xs" and b: "s' = s + 4 + 4 * length xs"
    and c: "unchanged_outside (store mem s v) mem' (s + 4) (s + 4 + 4 * length xs)"
    by simp_all
  have d: "unchanged_outside mem (store mem s v) s (s + 4)"
    by (rule unchanged_outside_store) (simp_all add: v_def)
  have "unchanged_outside mem mem' s (s + 4 * length (x # xs))"
    by (rule unchanged_outside_trans [OF d c]) simp_all
  then show ?case using a b by simp
qed

lemma set_blk_data_sweep_aux:
  assumes "fold (\<lambda>j. fold (\<lambda>k. set_sample ps buf) [0..<ch]) ys (mem, f, s) = (mem', f', s')"
  shows "f' = f + length ys * ch \<and> s' = s + 4 * (length ys * ch)
         \<and> unchanged_outside mem mem' s (s + 4 * (length ys * ch))"
  using assms
proof (induction ys arbitrary: mem f s)
  case Nil
  then show ?case by (simp add: unchanged_outside_refl)
next
  case (Cons y ys)
  obtain m1 f1 s1 where 1: "fold (\<lambda>k. set_sample ps buf) [0..<ch] (mem, f, s) = (m1, f1, s1)"
    using prod_cases3 by blast
  from samples_sweep [OF 1] have 2: "f1 = f + ch" "s1 = s + 4 * ch"
    "unchanged_outside mem m1 s (s + 4 * ch)"
    by simp_all
  from Cons.prems 1 have "fold (\<lambda>j. fold (\<lambda>k. set_sample ps buf) [0..<ch]) ys (m1, f1, s1)
      = (mem', f', s')"
    by simp
  from Cons.IH [OF this] have 3: "f' = f1 + length ys * ch" "s' = s1 + 4 * (length ys * ch)"
    "unchanged_outside m1 mem' s1 (s1 + 4 * (length ys * ch))"
    by simp_all
  have "unchanged_outside mem mem' s (s + 4 * (length (y # ys) * ch))"
    by (rule unchanged_outside_trans [OF 2(3) 3(3)]) (simp_all add: 2 add_mult_distrib2)
  then show ?case
    using 2 3 by (simp add: add_mult_distrib2)
qed

lemma set_blk_data_sweep:
  assumes "set_blk_data ps ch buf (mem, f, s) = (mem', f', s')"
  shows "f' = f + OB_FRAMES_PER_BLOCK ps * ch
         \<and> unchanged_outside mem mem' s (s + 4 * (OB_FRAMES_PER_BLOCK ps * ch))"
  using set_blk_data_sweep_aux [of ps buf ch "[0..<OB_FRAMES_PER_BLOCK ps]" mem f s mem' f' s'] assms
  by (simp add: set_blk_data_def)

text \<open>The effect of one round of the loop over the blocks, and of the rounds up to \<open>m\<close>.\<close>

lemma set_block_effect:
  assumes "set_block ps i (e, f) = (e', f')"
  shows "e' = e\<lparr>frames := frames e + of_nat (OB_FRAMES_PER_BLOCK ps),
                 usb_data_out := usb_data_out e'\<rparr>"
    and "unchanged_outside (usb_data_out e) (usb_data_out e')
           (get_nth_usb_out_blk e i + blk_frames)
           (get_nth_usb_out_blk e i + blk_data ps
              + 4 * (OB_FRAMES_PER_BLOCK ps * inputs (device_desc e)))"
    and "\<And>j. get_nth_usb_out_blk e i + blk_padding \<le> j \<Longrightarrow> j < get_nth_usb_out_blk e i + blk_data ps
           \<Longrightarrow> usb_data_out e' ! j = usb_data_out e ! j"
    and "get_nth_usb_out_blk e i + 4 \<le> length (usb_data_out e) \<Longrightarrow>
           bytes_at (usb_data_out e') (get_nth_usb_out_blk e i + blk_frames) 2
             = htobe16 (frames e + of_nat (OB_FRAMES_PER_BLOCK ps))"
    and "f' = f + OB_FRAMES_PER_BLOCK ps * inputs (device_desc e)"
proof -
  define b where "b = get_nth_usb_out_blk e i"
  define fr where "fr = frames e + of_nat (OB_FRAMES_PER_BLOCK ps)"
  define m1 where "m1 = store (usb_data_out e) (b + blk_frames) (htobe16 fr)"
  obtain m2 f2 s2 where sweep: "set_blk_data ps (inputs (device_desc e)) (p2o_transfer_buf e)
      (m1, f, b + blk_data ps) = (m2, f2, s2)"
    using prod_cases3 by blast
  from assms sweep have e': "e' = e\<lparr>frames := fr, usb_data_out := m2\<rparr>" and f': "f' = f2"
    by (simp_all add: set_block_def Let_def b_def fr_def m1_def get_nth_usb_out_blk_def)
  from set_blk_data_sweep [OF sweep] have f2: "f2 = f + OB_FRAMES_PER_BLOCK ps * inputs (device_desc e)"
    and u2: "unchanged_outside m1 m2 (b + blk_data ps)
               (b + blk_data ps + 4 * (OB_FRAMES_PER_BLOCK ps * inputs (device_desc e)))"
    by simp_all
  have u1: "unchanged_outside (usb_data_out e) m1 (b + blk_frames) (b + blk_frames + 2)"
    unfolding m1_def by (rule unchanged_outside_store) simp_all
  show "e' = e\<lparr>frames := frames e + of_nat (OB_FRAMES_PER_BLOCK ps),
                 usb_data_out := usb_data_out e'\<rparr>"
    using e' by (simp add: fr_def)
  show "unchanged_outside (usb_data_out e) (usb_data_out e')
           (get_nth_usb_out_blk e i + blk_frames)
           (get_nth_usb_out_blk e i + blk_data ps
              + 4 * (OB_FRAMES_PER_BLOCK ps * inputs (device_desc e)))"
    unfolding b_def [symmetric]
    using unchanged_outside_trans [OF u1 u2] e'
    by (simp add: blk_frames_def blk_data_def)
  show "usb_data_out e' ! j = usb_data_out e ! j"
    if "get_nth_usb_out_blk e i + blk_padding \<le> j" "j < get_nth_usb_out_blk e i + blk_data ps" for j
  proof -
    have "m2 ! j = m1 ! j"
      using that by (intro unchanged_outside_nth [OF u2]) (simp add: b_def)
    also have "\<dots> = usb_data_out e ! j"
      using that by (intro unchanged_outside_nth [OF u1]) (simp add: b_def blk_padding_def blk_frames_def)
    finally show ?thesis using e' by simp
  qed
  show "bytes_at (usb_data_out e') (get_nth_usb_out_blk e i + blk_frames) 2
             = htobe16 (frames e + of_nat (OB_FRAMES_PER_BLOCK ps))"
    if "get_nth_usb_out_blk e i + 4 \<le> length (usb_data_out e)"
  proof -
    have "bytes_at m2 (b + blk_frames) 2 = bytes_at m1 (b + blk_frames) 2"
      using unchanged_outside_nth [OF u2]
      by (simp add: bytes_at_def blk_frames_def blk_data_def)
    also have "\<dots> = htobe16 fr"
      unfolding m1_def using that by (intro bytes_at_store) (simp_all add: b_def blk_frames_def)
    finally show ?thesis using e' by (simp add: b_def fr_def)
  qed
  show "f' = f + OB_FRAMES_PER_BLOCK ps * inputs (device_desc e)"
    using f' f2 by simp
qed

lemma block_index_less: "k < m \<Longrightarrow> d < L \<Longrightarrow> k * L + d < m * (L::nat)"
proof -
  assume "k < m" "d < L"
  then have "Suc k * L \<le> m * L"
    by (intro mult_le_mono1) simp
  moreover have "k * L + d < Suc k * L"
    using \<open>d < L\<close> by simp
  ultimately show ?thesis by linarith
qed

lemma set_blocks_fold:
  assumes L: "usb_data_out_blk_len e = blk_data ps + 4 * (OB_FRAMES_PER_BLOCK ps * inputs (device_desc e))"
    and len: "m * usb_data_out_blk_len e \<le> length (usb_data_out e)"
    and run: "fold (set_block ps) [0..<m] (e, f) = (e', f')"
  shows "e' = e\<lparr>frames := frames e + of_nat (m * OB_FRAMES_PER_BLOCK ps),
                 usb_data_out := usb_data_out e'\<rparr>
         \<and> length (usb_data_out e') = length (usb_data_out e)
         \<and> (\<forall>j. m * usb_data_out_blk_len e \<le> j \<longrightarrow> usb_data_out e' ! j = usb_data_out e ! j)
         \<and> (\<forall>k d. k < m \<and> (d < 2 \<or> 4 \<le> d \<and> d < blk_data ps) \<longrightarrow>
               usb_data_out e' ! (k * usb_data_out_blk_len e + d)
                 = usb_data_out e ! (k * usb_data_out_blk_len e + d))
         \<and> (\<forall>k<m. bytes_at (usb_data_out e') (k * usb_data_out_blk_len e + 2) 2
               = htobe16 (frames e + of_nat (Suc k * OB_FRAMES_PER_BLOCK ps)))"
  using len run
proof (induction m arbitrary: e' f')
  case 0
  then show ?case by simp
next
  case (Suc m)
  define Ln where "Ln = usb_data_out_blk_len e"
  define H where "H = blk_data ps"
  define n where "n = OB_FRAMES_PER_BLOCK ps * inputs (device_desc e)"
  have LH: "Ln = H + 4 * n" using L by (simp add: Ln_def H_def n_def)
  have H4: "4 \<le> H" by (simp add: H_def blk_data_def)
  obtain e1 f1 where 1: "fold (set_block ps) [0..<m] (e, f) = (e1, f1)"
    by (cases "fold (set_block ps) [0..<m] (e, f)")
  from Suc.prems(1) have len_m: "m * usb_data_out_blk_len e \<le> length (usb_data_out e)"
    and len_Sm: "m * Ln + Ln \<le> length (usb_data_out e)"
    by (simp_all add: Ln_def add.commute)
  note IH = Suc.IH [OF len_m 1]
  from IH have e1: "e1 = e\<lparr>frames := frames e + of_nat (m * OB_FRAMES_PER_BLOCK ps),
                 usb_data_out := usb_data_out e1\<rparr>"
    and len1: "length (usb_data_out e1) = length (usb_data_out e)"
    and tail1: "\<And>j. m * Ln \<le> j \<Longrightarrow> usb_data_out e1 ! j = usb_data_out e ! j"
    and prot1: "\<And>k d. k < m \<Longrightarrow> d < 2 \<or> 4 \<le> d \<and> d < H \<Longrightarrow>
               usb_data_out e1 ! (k * Ln + d) = usb_data_out e ! (k * Ln + d)"
    and fr1: "\<And>k. k < m \<Longrightarrow> bytes_at (usb_data_out e1) (k * Ln + 2) 2
               = htobe16 (frames e + of_nat (Suc k * OB_FRAMES_PER_BLOCK ps))"
    unfolding Ln_def H_def by blast+
  have f1s: "frames e1 = frames e + of_nat (m * OB_FRAMES_PER_BLOCK ps)"
    and L1: "usb_data_out_blk_len e1 = Ln" and d1: "device_desc e1 = device_desc e"
    by (subst e1, simp add: Ln_def)+
  have blk1: "get_nth_usb_out_blk e1 m = m * Ln"
    by (simp add: get_nth_usb_out_blk_def L1)
  from Suc.prems(2) 1 have 2: "set_block ps m (e1, f1) = (e', f')"
    by simp
  note eff = set_block_effect [OF 2, unfolded blk1 d1 f1s]
  have e': "e' = e\<lparr>frames := frames e + of_nat (Suc m * OB_FRAMES_PER_BLOCK ps),
                 usb_data_out := usb_data_out e'\<rparr>"
    by (subst eff(1), subst e1) (simp add: add.assoc add.commute)
  have step: "unchanged_outside (usb_data_out e1) (usb_data_out e') (m * Ln + 2) (m * Ln + Ln)"
    using eff(2) by (simp add: blk_frames_def LH H_def n_def add.assoc)
  have pad: "\<And>j. m * Ln + 4 \<le> j \<Longrightarrow> j < m * Ln + H \<Longrightarrow> usb_data_out e' ! j = usb_data_out e1 ! j"
    using eff(3) by (simp add: blk_padding_def H_def)
  have frm: "bytes_at (usb_data_out e') (m * Ln + 2) 2
      = htobe16 (frames e + of_nat (Suc m * OB_FRAMES_PER_BLOCK ps))"
  proof -
    have "m * Ln + 4 \<le> length (usb_data_out e1)"
      using len_Sm LH H4 len1 by simp
    from eff(4) [OF this] show ?thesis
      by (simp add: blk_frames_def ac_simps)
  qed
  have c2: "length (usb_data_out e') = length (usb_data_out e)"
    using unchanged_outside_length [OF step] len1 by simp
  have c3: "usb_data_out e' ! j = usb_data_out e ! j" if "Suc m * Ln \<le> j" for j
  proof -
    from that have a: "m * Ln + Ln \<le> j" by (simp add: add.commute)
    then have "usb_data_out e' ! j = usb_data_out e1 ! j"
      by (intro unchanged_outside_nth [OF step]) simp
    also have "\<dots> = usb_data_out e ! j"
      using a by (intro tail1) simp
    finally show ?thesis .
  qed
  have c4: "usb_data_out e' ! (k * Ln + d) = usb_data_out e ! (k * Ln + d)"
    if "k < Suc m" "d < 2 \<or> 4 \<le> d \<and> d < H" for k d
  proof (cases "k < m")
    case True
    from that(2) LH H4 have "d < Ln" by linarith
    from block_index_less [OF True this]
    have "usb_data_out e' ! (k * Ln + d) = usb_data_out e1 ! (k * Ln + d)"
      by (intro unchanged_outside_nth [OF step]) simp
    then show ?thesis using prot1 [OF True that(2)] by simp
  next
    case False
    with that(1) have km: "k = m" by simp
    have "usb_data_out e' ! (m * Ln + d) = usb_data_out e1 ! (m * Ln + d)"
    proof (cases "d < 2")
      case True
      then show ?thesis by (intro unchanged_outside_nth [OF step]) simp
    next
      case False
      with that(2) show ?thesis by (intro pad) simp_all
    qed
    also have "\<dots> = usb_data_out e ! (m * Ln + d)"
      by (intro tail1) simp
    finally show ?thesis using km by simp
  qed
  have c5: "bytes_at (usb_data_out e') (k * Ln + 2) 2
      = htobe16 (frames e + of_nat (Suc k * OB_FRAMES_PER_BLOCK ps))" if "k < Suc m" for k
  proof (cases "k < m")
    case True
    have "3 < Ln" using LH H4 by simp
    note lt = block_index_less [OF True this]
    have "bytes_at (usb_data_out e') (k * Ln + 2) 2 = bytes_at (usb_data_out e1) (k * Ln + 2) 2"
    proof (rule bytes_at_eqI)
      fix i :: nat
      assume "i < 2"
      with lt have "k * Ln + 2 + i < m * Ln + 2" by linarith
      then show "usb_data_out e' ! (k * Ln + 2 + i) = usb_data_out e1 ! (k * Ln + 2 + i)"
        by (intro unchanged_outside_nth [OF step]) simp
    qed
    then show ?thesis using fr1 [OF True] by simp
  next
    case False
    with that have "k = m" by simp
    then show ?thesis using frm by simp
  qed
  show ?case
    unfolding Ln_def [symmetric] H_def [symmetric]
    using e' c2 c3 c4 c5 by blast
qed

subsection \<open>The outgoing buffer after initialization\<close>

lemma init_headers_fold:
  assumes L2: "2 \<le> usb_data_out_blk_len e"
    and len: "m * usb_data_out_blk_len e \<le> length (usb_data_out e)"
    and run: "fold (\<lambda>i engine. engine\<lparr>usb_data_out :=
               store (usb_data_out engine)
                 (get_nth_usb_out_blk engine i + blk_header) (htobe16 0x07ff)\<rparr>) [0..<m] e = e'"
  shows "e' = e\<lparr>usb_data_out := usb_data_out e'\<rparr>
         \<and> length (usb_data_out e') = length (usb_data_out e)
         \<and> (\<forall>j. m * usb_data_out_blk_len e \<le> j \<longrightarrow> usb_data_out e' ! j = usb_data_out e ! j)
         \<and> (\<forall>k d. k < m \<and> 2 \<le> d \<and> d < usb_data_out_blk_len e \<longrightarrow>
               usb_data_out e' ! (k * usb_data_out_blk_len e + d)
                 = usb_data_out e ! (k * usb_data_out_blk_len e + d))
         \<and> (\<forall>k<m. bytes_at (usb_data_out e') (k * usb_data_out_blk_len e) 2 = htobe16 0x07ff)"
  using len run
proof (induction m arbitrary: e')
  case 0
  then show ?case by simp
next
  case (Suc m)
  define Ln where "Ln = usb_data_out_blk_len e"
  define e1 where "e1 = fold (\<lambda>i engine. engine\<lparr>usb_data_out :=
               store (usb_data_out engine)
                 (get_nth_usb_out_blk engine i + blk_header) (htobe16 0x07ff)\<rparr>) [0..<m] e"
  from Suc.prems(1) have len_m: "m * usb_data_out_blk_len e \<le> length (usb_data_out e)"
    and len_Sm: "m * Ln + Ln \<le> length (usb_data_out e)"
    by (simp_all add: Ln_def add.commute)
  note IH = Suc.IH [OF len_m e1_def [symmetric]]
  from IH have e1: "e1 = e\<lparr>usb_data_out := usb_data_out e1\<rparr>"
    and len1: "length (usb_data_out e1) = length (usb_data_out e)"
    and tail1: "\<And>j. m * Ln \<le> j \<Longrightarrow> usb_data_out e1 ! j = usb_data_out e ! j"
    and rest1: "\<And>k d. k < m \<Longrightarrow> 2 \<le> d \<Longrightarrow> d < Ln \<Longrightarrow>
               usb_data_out e1 ! (k * Ln + d) = usb_data_out e ! (k * Ln + d)"
    and hd1: "\<And>k. k < m \<Longrightarrow> bytes_at (usb_data_out e1) (k * Ln) 2 = htobe16 0x07ff"
    unfolding Ln_def by blast+
  have L1: "usb_data_out_blk_len e1 = Ln"
    by (subst e1) (simp add: Ln_def)
  from Suc.prems(2) have "e' = e1\<lparr>usb_data_out :=
      store (usb_data_out e1) (get_nth_usb_out_blk e1 m + blk_header) (htobe16 0x07ff)\<rparr>"
    by (simp add: e1_def)
  then have e': "e' = e1\<lparr>usb_data_out := store (usb_data_out e1) (m * Ln) (htobe16 0x07ff)\<rparr>"
    by (simp add: get_nth_usb_out_blk_def L1 blk_header_def)
  have step: "unchanged_outside (usb_data_out e1) (usb_data_out e') (m * Ln) (m * Ln + 2)"
    unfolding e' by (simp add: unchanged_outside_store)
  have c1: "e' = e\<lparr>usb_data_out := usb_data_out e'\<rparr>"
  proof -
    define m1 where "m1 = usb_data_out e1"
    have "e1 = e\<lparr>usb_data_out := m1\<rparr>"
      unfolding m1_def by (rule e1)
    then show ?thesis
      unfolding e' by simp
  qed
  have c2: "length (usb_data_out e') = length (usb_data_out e)"
    using unchanged_outside_length [OF step] len1 by simp
  have c3: "usb_data_out e' ! j = usb_data_out e ! j" if "Suc m * Ln \<le> j" for j
  proof -
    from that L2 have a: "m * Ln + 2 \<le> j" by (simp add: Ln_def)
    then have "usb_data_out e' ! j = usb_data_out e1 ! j"
      by (intro unchanged_outside_nth [OF step]) simp
    also have "\<dots> = usb_data_out e ! j"
      using a by (intro tail1) simp
    finally show ?thesis .
  qed
  have c4: "usb_data_out e' ! (k * Ln + d) = usb_data_out e ! (k * Ln + d)"
    if "k < Suc m" "2 \<le> d" "d < Ln" for k d
  proof (cases "k < m")
    case True
    from block_index_less [OF True that(3)]
    have "usb_data_out e' ! (k * Ln + d) = usb_data_out e1 ! (k * Ln + d)"
      by (intro unchanged_outside_nth [OF step]) simp
    then show ?thesis using rest1 [OF True that(2,3)] by simp
  next
    case False
    with that(1) have km: "k = m" by simp
    have "usb_data_out e' ! (m * Ln + d) = usb_data_out e1 ! (m * Ln + d)"
      using that(2) by (intro unchanged_outside_nth [OF step]) simp
    also have "\<dots> = usb_data_out e ! (m * Ln + d)"
      by (intro tail1) simp
    finally show ?thesis using km by simp
  qed
  have c5: "bytes_at (usb_data_out e') (k * Ln) 2 = htobe16 0x07ff" if "k < Suc m" for k
  proof (cases "k < m")
    case True
    have "1 < Ln" using L2 by (simp add: Ln_def)
    note lt = block_index_less [OF True this]
    have "bytes_at (usb_data_out e') (k * Ln) 2 = bytes_at (usb_data_out e1) (k * Ln) 2"
    proof (rule bytes_at_eqI)
      fix i :: nat
      assume "i < 2"
      with lt have "k * Ln + i < m * Ln" by linarith
      then show "usb_data_out e' ! (k * Ln + i) = usb_data_out e1 ! (k * Ln + i)"
        by (intro unchanged_outside_nth [OF step]) simp
    qed
    then show ?thesis using hd1 [OF True] by simp
  next
    case False
    with that have km: "k = m" by simp
    have "m * Ln + 2 \<le> length (usb_data_out e1)"
      using len_Sm L2 len1 by (simp add: Ln_def)
    then show ?thesis
      unfolding km e' by (simp add: bytes_at_store)
  qed
  show ?case
    unfolding Ln_def [symmetric]
    using c1 c2 c3 c4 c5 by blast
qed

lemma out_obs_cong:
  "out_view e' = out_view e \<Longrightarrow> out_blk_header k e' = out_blk_header k e"
  "out_view e' = out_view e \<Longrightarrow> out_blk_frames k e' = out_blk_frames k e"
  "out_view e' = out_view e \<Longrightarrow> out_blk_padding ps k e' = out_blk_padding ps k e"
  by (simp_all add: out_view_def out_blk_header_def out_blk_frames_def out_blk_padding_def
      get_nth_usb_out_blk_def)

lemma out_layout_cong: "out_view e' = out_view e \<Longrightarrow> out_layout ps e' = out_layout ps e"
  unfolding out_layout_def
  by (simp add: out_obs_cong [of e' e]) (simp add: out_view_def)

lemma out_inv_cong: "out_view e' = out_view e \<Longrightarrow> out_inv ps t e' = out_inv ps t e"
  unfolding out_inv_def
  by (simp add: out_obs_cong [of e' e] out_layout_cong [of e' e]) (simp add: out_view_def)

lemma out_layout_init_headers:
  assumes L: "usb_data_out_blk_len e
        = blk_data ps + 4 * (OB_FRAMES_PER_BLOCK ps * inputs (device_desc e))"
    and mem: "usb_data_out e = replicate (blocks_per_transfer e * usb_data_out_blk_len e) 0"
  shows "out_layout ps (init_headers e)"
    and "blocks_per_transfer (init_headers e) = blocks_per_transfer e"
    and "device_desc (init_headers e) = device_desc e"
    and "frames_per_transfer (init_headers e) = frames_per_transfer e"
proof -
  define Ln where "Ln = usb_data_out_blk_len e"
  define n where "n = blocks_per_transfer e"
  define e' where "e' = init_headers e"
  define m' where "m' = usb_data_out e'"
  have H: "blk_data ps = 4 + OB_PADDING_SIZE ps" by (simp add: blk_data_def)
  have L2: "2 \<le> usb_data_out_blk_len e" using L H by simp
  have len: "n * usb_data_out_blk_len e \<le> length (usb_data_out e)"
    using mem by (simp add: n_def)
  have run: "fold (\<lambda>i engine. engine\<lparr>usb_data_out :=
               store (usb_data_out engine)
                 (get_nth_usb_out_blk engine i + blk_header) (htobe16 0x07ff)\<rparr>) [0..<n] e = e'"
    by (simp add: e'_def init_headers_def n_def)
  note F = init_headers_fold [OF L2 len run]
  from F have shape: "e' = e\<lparr>usb_data_out := m'\<rparr>"
    unfolding m'_def by blast
  from F have len': "length m' = length (usb_data_out e)"
    and rest: "\<And>k d. k < n \<Longrightarrow> 2 \<le> d \<Longrightarrow> d < Ln \<Longrightarrow>
               m' ! (k * Ln + d) = usb_data_out e ! (k * Ln + d)"
    and hd: "\<And>k. k < n \<Longrightarrow> bytes_at m' (k * Ln) 2 = htobe16 0x07ff"
    unfolding m'_def Ln_def by blast+
  show "blocks_per_transfer (init_headers e) = blocks_per_transfer e"
    "device_desc (init_headers e) = device_desc e"
    "frames_per_transfer (init_headers e) = frames_per_transfer e"
    unfolding e'_def [symmetric] by (simp_all add: shape)
  have pad: "bytes_at m' (k * Ln + 4) (OB_PADDING_SIZE ps) = replicate (OB_PADDING_SIZE ps) 0"
    if "k < n" for k
  proof -
    have "m' ! (k * Ln + 4 + i) = 0" if "i < OB_PADDING_SIZE ps" for i
    proof -
      have d: "4 + i < Ln" using that L H by (simp add: Ln_def)
      have "k * Ln + (4 + i) < n * Ln"
        by (rule block_index_less [OF \<open>k < n\<close> d])
      then have "usb_data_out e ! (k * Ln + (4 + i)) = 0"
        using mem by (simp add: n_def Ln_def)
      moreover have "m' ! (k * Ln + (4 + i)) = usb_data_out e ! (k * Ln + (4 + i))"
        using d by (intro rest [OF \<open>k < n\<close>]) simp_all
      ultimately show ?thesis by (simp add: add.assoc)
    qed
    then show ?thesis
      by (auto simp: bytes_at_def intro: nth_equalityI)
  qed
  show "out_layout ps (init_headers e)"
    unfolding e'_def [symmetric] out_layout_def out_blk_header_def out_blk_padding_def
    using L mem len' hd pad
    by (simp add: shape get_nth_usb_out_blk_def blk_header_def blk_padding_def n_def Ln_def)
qed

lemma out_view_init_transfer_buffers [simp]:
  "out_view (init_transfer_buffers e) = out_view e"
  by (simp add: init_transfer_buffers_def out_view_def Let_def)

lemma ow_engine_init_out:
  assumes "ow_engine_init ps ret desc n m0 = (r, Some e0)"
  shows "out_layout ps e0" and "blocks_per_transfer e0 = n" and "device_desc e0 = desc"
    and "r = OW_OK"
proof -
  define X where "X = init_usb_buffers ps desc n m0"
  have X: "usb_data_out_blk_len X
        = blk_data ps + 4 * (OB_FRAMES_PER_BLOCK ps * inputs (device_desc X))"
    "usb_data_out X = replicate (blocks_per_transfer X * usb_data_out_blk_len X) 0"
    "blocks_per_transfer X = n" "device_desc X = desc"
    by (simp_all add: X_def init_usb_buffers_def Let_def sizeof_usb_blk_def blk_data_def ac_simps)
  from assms have e0: "e0 = init_transfer_buffers (init_headers X)" and r: "r = OW_OK"
    by (auto simp: ow_engine_init_def X_def split: if_splits)
  note Hd = out_layout_init_headers [OF X(1,2)]
  have v: "out_view e0 = out_view (init_headers X)"
    by (simp add: e0)
  show "out_layout ps e0"
    using Hd(1) out_layout_cong [OF v] by simp
  show "blocks_per_transfer e0 = n" "device_desc e0 = desc"
    using v Hd(2,3) X(3,4) by (simp_all add: out_view_def)
  show "r = OW_OK" by (rule r)
qed

subsection \<open>What leaves the outgoing buffer alone\<close>

lemma out_view_set_usb_input_data_blks:
  "set_usb_input_data_blks ps e = Some e' \<Longrightarrow> out_view e' = out_view e"
  by (auto simp: set_usb_input_data_blks_def Let_def error_print_def out_view_def
      split: if_splits prod.splits option.splits Option.bind_splits)

lemma out_view_prepare_cycle [simp]:
  "out_view (prepare_cycle_in e err) = out_view e"
  "out_view (prepare_cycle_out e err) = out_view e"
  "out_view (prepare_cycle_in_midi e err) = out_view e"
  "out_view (prepare_cycle_out_midi e err) = out_view e"
  by (simp_all add: prepare_cycle_in_def prepare_cycle_out_def prepare_cycle_in_midi_def
      prepare_cycle_out_midi_def ow_engine_set_status_def error_print_def Let_def out_view_def)

lemma out_view_cb_xfr_in_midi_event:
  "cb_xfr_in_midi_event ps now len e = Some e' \<Longrightarrow> out_view e' = out_view e"
  by (auto simp: cb_xfr_in_midi_event_def Let_def error_print_def out_view_def
      split: if_splits Option.bind_splits)

lemma out_view_cb_xfr_in_midi_loop:
  "cb_xfr_in_midi_loop ps now al len e = Some e' \<Longrightarrow> out_view e' = out_view e"
proof (induction ps now al len e rule: cb_xfr_in_midi_loop.induct)
  case (1 ps now al len e)
  show ?case
  proof (cases "len < al")
    case True
    then obtain e1 where a: "cb_xfr_in_midi_event ps now len e = Some e1"
      and b: "cb_xfr_in_midi_loop ps now al (len + OB_MIDI_EVENT_SIZE) e1 = Some e'"
      using "1.prems"
      by (auto simp: cb_xfr_in_midi_loop.simps [of ps now al len e] split: option.splits)
    from "1.IH" [OF True a b] out_view_cb_xfr_in_midi_event [OF a] show ?thesis by simp
  next
    case False
    then show ?thesis
      using "1.prems" by (simp add: cb_xfr_in_midi_loop.simps [of ps now al len e])
  qed
qed

lemma out_view_cb_xfr_in:
  "cb_xfr_in ps e st err = Some e' \<Longrightarrow> out_view e' = out_view e"
  by (auto simp: cb_xfr_in_def split: if_splits Option.bind_splits
      dest!: out_view_set_usb_input_data_blks)
     (simp add: error_print_def out_view_def)

lemma out_view_cb_xfr_in_midi:
  "cb_xfr_in_midi ps e st al err = Some e' \<Longrightarrow> out_view e' = out_view e"
  by (auto simp: cb_xfr_in_midi_def split: if_splits Option.bind_splits
      dest!: out_view_cb_xfr_in_midi_loop)
     (simp add: error_print_def out_view_def)

lemma out_view_cb_xfr_out_midi [simp]: "out_view (cb_xfr_out_midi e st) = out_view e"
  by (simp add: cb_xfr_out_midi_def error_print_def out_view_def Let_def)

lemma out_view_thread:
  "run_audio_o2p_midi ps err (pc, e) = Some (pc', e') \<Longrightarrow> out_view e' = out_view e"
  by (cases pc)
     (auto simp: thread_top_def thread_drain_def ow_engine_set_status_def out_view_def Let_def
        out_view_prepare_cycle [unfolded out_view_def, simplified]
      split: if_splits option.splits Option.bind_splits)

text \<open>An out-cycle is \<^verbatim>\<open>set_blocks\<close> on an engine with the same outgoing buffer.\<close>

lemma out_view_p2o_underflow:
  "p2o_underflow ps e io ring rs = Some e' \<Longrightarrow> out_view e' = out_view e"
  by (auto simp: p2o_underflow_def Let_def error_print_def out_view_def
      split: if_splits prod.splits Option.bind_splits)

lemma set_usb_output_data_blks_set_blocks:
  assumes "set_usb_output_data_blks ps e = Some e'"
  shows "\<exists>e1. e' = set_blocks ps e1 \<and> out_view e1 = out_view e"
  using assms
  apply (auto simp: set_usb_output_data_blks_def Let_def
      split: if_splits prod.splits Option.bind_splits dest!: out_view_p2o_underflow)
  apply (rule exI, rule conjI, rule refl, simp add: out_view_def)+
  done

subsection \<open>The outgoing buffer after each out-cycle\<close>

lemma out_inv_set_blocks:
  assumes "out_inv ps t e"
  shows "out_inv ps (Suc t) (set_blocks ps e)"
proof -
  define Ln where "Ln = usb_data_out_blk_len e"
  define n where "n = blocks_per_transfer e"
  define F where "F = OB_FRAMES_PER_BLOCK ps"
  define P where "P = OB_PADDING_SIZE ps"
  from assms have L: "usb_data_out_blk_len e
        = blk_data ps + 4 * (OB_FRAMES_PER_BLOCK ps * inputs (device_desc e))"
    and len: "length (usb_data_out e) = n * Ln"
    and hd: "\<And>k. k < n \<Longrightarrow> out_blk_header k e = htobe16 0x07ff"
    and pad: "\<And>k. k < n \<Longrightarrow> out_blk_padding ps k e = replicate P 0"
    and fr: "frames e = of_nat (t * (n * F))"
    by (simp_all add: out_inv_def out_layout_def n_def Ln_def F_def P_def)
  obtain e' f' where run: "fold (set_block ps) [0..<n] (e, 0) = (e', f')"
    by (cases "fold (set_block ps) [0..<n] (e, 0)")
  then have sb: "set_blocks ps e = e'"
    by (simp add: set_blocks_def n_def)
  have len_le: "n * usb_data_out_blk_len e \<le> length (usb_data_out e)"
    using len by (simp add: Ln_def)
  note Fd = set_blocks_fold [OF L len_le run]
  define m' where "m' = usb_data_out e'"
  from Fd have shape: "e' = e\<lparr>frames := frames e + of_nat (n * F), usb_data_out := m'\<rparr>"
    unfolding m'_def F_def by blast
  from Fd have len': "length m' = length (usb_data_out e)"
    and prot: "\<And>k d. k < n \<Longrightarrow> d < 2 \<or> 4 \<le> d \<and> d < blk_data ps \<Longrightarrow>
               m' ! (k * Ln + d) = usb_data_out e ! (k * Ln + d)"
    and frm: "\<And>k. k < n \<Longrightarrow> bytes_at m' (k * Ln + 2) 2
               = htobe16 (frames e + of_nat (Suc k * F))"
    unfolding m'_def Ln_def F_def by blast+
  have sel: "usb_data_out e' = m'" "usb_data_out_blk_len e' = Ln" "blocks_per_transfer e' = n"
    "device_desc e' = device_desc e" "frames e' = frames e + of_nat (n * F)"
    by (simp_all add: shape Ln_def n_def)
  have hd': "out_blk_header k e' = htobe16 0x07ff" if "k < n" for k
  proof -
    have "bytes_at m' (k * Ln) 2 = bytes_at (usb_data_out e) (k * Ln) 2"
      by (rule bytes_at_eqI) (simp add: prot [OF that])
    then show ?thesis
      using hd [OF that]
      by (simp add: out_blk_header_def get_nth_usb_out_blk_def sel blk_header_def Ln_def)
  qed
  have pad': "out_blk_padding ps k e' = replicate P 0" if "k < n" for k
  proof -
    have "bytes_at m' (k * Ln + 4) P = bytes_at (usb_data_out e) (k * Ln + 4) P"
    proof (rule bytes_at_eqI)
      fix i assume "i < P"
      then have "4 \<le> 4 + i \<and> 4 + i < blk_data ps"
        by (simp add: blk_data_def P_def)
      from prot [OF that disjI2, OF this]
      show "m' ! (k * Ln + 4 + i) = usb_data_out e ! (k * Ln + 4 + i)"
        by (simp add: add.assoc)
    qed
    then show ?thesis
      using pad [OF that]
      by (simp add: out_blk_padding_def get_nth_usb_out_blk_def sel blk_padding_def Ln_def P_def)
  qed
  have fr': "frames e' = of_nat (Suc t * (n * F))"
    by (simp add: sel fr add.commute)
  have frm': "out_blk_frames k e' = of_nat (((Suc t - 1) * n + Suc k) * F)" if "k < n" for k
  proof -
    have "out_blk_frames k e' = frames e + of_nat (Suc k * F)"
      using frm [OF that]
      by (simp add: out_blk_frames_def get_nth_usb_out_blk_def sel blk_frames_def)
    also have "\<dots> = of_nat (t * (n * F) + Suc k * F)"
      by (simp add: fr)
    also have "t * (n * F) + Suc k * F = ((Suc t - 1) * n + Suc k) * F"
      by (simp add: algebra_simps)
    finally show ?thesis .
  qed
  have "out_layout ps e'"
    unfolding out_layout_def
    using L len len' hd' pad'
    by (simp add: sel Ln_def P_def)
  then show ?thesis
    unfolding sb out_inv_def
    using fr' frm' by (simp add: sel F_def)
qed

lemma out_inv_view: "out_view e' = out_view e \<Longrightarrow> out_inv ps t e \<Longrightarrow> out_inv ps t e'"
  using out_inv_cong [of e' e ps t] by simp

lemma out_cycles_simps:
  "out_cycles [] = 0"
  "out_cycles (s # steps) = out_cycles [s] + out_cycles steps"
  "out_cycles [STEP_CALLBACK (COMPLETE_OUT st err)] = 1"
  "\<not> is_out_cycle s \<Longrightarrow> out_cycles [s] = 0"
  by (simp_all add: out_cycles_def)

lemma out_inv_set_usb_output_data_blks:
  assumes "out_inv ps t e" and "set_usb_output_data_blks ps e = Some e'"
  shows "out_inv ps (Suc t) e'"
proof -
  from set_usb_output_data_blks_set_blocks [OF assms(2)]
  obtain e1 where 1: "e' = set_blocks ps e1" and 2: "out_view e1 = out_view e"
    by blast
  from out_inv_view [OF 2 assms(1)] have "out_inv ps t e1" .
  from out_inv_set_blocks [OF this] show ?thesis
    unfolding 1 .
qed

lemma out_inv_cb_xfr_out:
  assumes "out_inv ps t e" and "cb_xfr_out ps e st err = Some e'"
  shows "out_inv ps (Suc t) e'"
proof -
  define e0 where "e0 = (if st \<noteq> LIBUSB_TRANSFER_COMPLETED
       then error_print ''j2o: Error on USB audio transfer'' e else e)"
  from assms(2) obtain e1 where 1: "set_usb_output_data_blks ps e0 = Some e1"
    and 2: "e' = prepare_cycle_out e1 err"
    unfolding cb_xfr_out_def Let_def e0_def [symmetric]
    by (cases "set_usb_output_data_blks ps e0") simp_all
  have "out_view e0 = out_view e"
    by (simp add: e0_def error_print_def out_view_def)
  from out_inv_view [OF this assms(1)] have "out_inv ps t e0" .
  from out_inv_set_usb_output_data_blks [OF this 1] have 3: "out_inv ps (Suc t) e1" .
  have "out_view e' = out_view e1"
    unfolding 2 by simp
  from out_inv_view [OF this 3] show ?thesis .
qed

lemma out_view_usb_callback:
  assumes "usb_callback ps ev e = Some e'" and "\<not> is_out_cycle (STEP_CALLBACK ev)"
  shows "out_view e' = out_view e"
proof (cases ev)
  case (COMPLETE_IN st rx err)
  with assms(1) have "cb_xfr_in ps (e\<lparr>usb_data_in := store (usb_data_in e) 0 rx\<rparr>) st err = Some e'"
    by simp
  from out_view_cb_xfr_in [OF this] show ?thesis
    by (simp add: out_view_def)
next
  case (COMPLETE_OUT st err)
  with assms(2) show ?thesis by simp
next
  case (COMPLETE_IN_MIDI st al rx err)
  with assms(1) have "cb_xfr_in_midi ps (e\<lparr>o2p_midi_data := store (o2p_midi_data e) 0 rx\<rparr>)
      st al err = Some e'"
    by simp
  from out_view_cb_xfr_in_midi [OF this] show ?thesis
    by (simp add: out_view_def)
next
  case (COMPLETE_OUT_MIDI st)
  with assms(1) have "e' = cb_xfr_out_midi e st"
    by simp
  then show ?thesis by simp
qed

lemma out_view_engine_step:
  assumes "engine_step ps s (pc, e) = Some (pc', e')" and "\<not> is_out_cycle s"
  shows "out_view e' = out_view e"
proof (cases s)
  case (STEP_THREAD err)
  with assms(1) have "run_audio_o2p_midi ps err (pc, e) = Some (pc', e')"
    by simp
  then show ?thesis by (rule out_view_thread)
next
  case (STEP_CALLBACK ev)
  with assms(1) have "usb_callback ps ev e = Some e'"
    by (cases "pc = PC_EVENTS") auto
  from out_view_usb_callback [OF this] assms(2) STEP_CALLBACK show ?thesis by simp
next
  case STEP_STOP
  with assms(1) have "e' = ow_engine_stop e" by simp
  then show ?thesis
    by (simp add: ow_engine_stop_def ow_engine_set_status_def out_view_def)
next
  case (STEP_P2O_MIDI_SUBMIT err)
  with assms(1) have "e' = prepare_cycle_out_midi (e\<lparr>p2o_midi_ready := False\<rparr>) err" by simp
  then have "out_view e' = out_view (e\<lparr>p2o_midi_ready := False\<rparr>)" by simp
  then show ?thesis by (simp add: out_view_def)
next
  case (STEP_SET_STATUS st)
  with assms(1) have "e' = ow_engine_set_status e st" by simp
  then show ?thesis
    by (simp add: ow_engine_set_status_def out_view_def)
next
  case (STEP_SET_P2O_AUDIO_ENABLE b)
  with assms(1) have "e' = ow_engine_set_p2o_audio_enable e b" by simp
  then show ?thesis
    by (simp add: ow_engine_set_p2o_audio_enable_def out_view_def)
next
  case (STEP_HOST_RINGS h)
  with assms(1) have "e' = e\<lparr>io_buffers := map_option h (io_buffers e)\<rparr>" by simp
  then show ?thesis
    by (simp add: out_view_def)
qed

lemma out_inv_engine_step:
  assumes "out_inv ps t e" and "engine_step ps s (pc, e) = Some (pc', e')"
  shows "out_inv ps (t + out_cycles [s]) e'"
proof (cases "is_out_cycle s")
  case True
  then obtain st err where s: "s = STEP_CALLBACK (COMPLETE_OUT st err)"
    by (cases s rule: is_out_cycle.cases) simp_all
  with assms(2) have "cb_xfr_out ps e st err = Some e'"
    by (cases "pc = PC_EVENTS") auto
  from out_inv_cb_xfr_out [OF assms(1) this] show ?thesis
    unfolding s out_cycles_simps(3) by simp
next
  case False
  from out_view_engine_step [OF assms(2) False] have "out_view e' = out_view e" .
  from out_inv_view [OF this assms(1)] show ?thesis
    unfolding out_cycles_simps(4) [OF False] by simp
qed

lemma out_inv_engine_steps:
  assumes "out_inv ps t e" and "engine_steps ps steps (pc, e) = Some (pc', e')"
  shows "out_inv ps (t + out_cycles steps) e'"
  using assms
proof (induction steps arbitrary: t pc e)
  case Nil
  then show ?case by (simp add: out_cycles_simps(1))
next
  case (Cons s steps)
  from Cons.prems(2) obtain pc1 e1 where 1: "engine_step ps s (pc, e) = Some (pc1, e1)"
    and 2: "engine_steps ps steps (pc1, e1) = Some (pc', e')"
    by (cases "engine_step ps s (pc, e)") auto
  from out_inv_engine_step [OF Cons.prems(1) 1] have "out_inv ps (t + out_cycles [s]) e1" .
  from Cons.IH [OF this 2] show ?case
    unfolding out_cycles_simps(2) [of s steps] by (simp only: add.assoc)
qed

lemma out_layout_same:
  assumes "usb_data_out e' = usb_data_out e" and "blocks_per_transfer e' = blocks_per_transfer e"
    and "usb_data_out_blk_len e' = usb_data_out_blk_len e" and "device_desc e' = device_desc e"
  shows "out_layout ps e' = out_layout ps e"
  unfolding out_layout_def out_blk_header_def out_blk_padding_def get_nth_usb_out_blk_def
  by (simp only: assms)

lemma out_inv_activate:
  assumes "out_layout ps e0" and "ow_engine_activate_with_dll mt at e0 io dll = (OW_OK, e1)"
  shows "out_inv ps 0 e1" and "blocks_per_transfer e1 = blocks_per_transfer e0"
proof -
  from assms(2) have v: "usb_data_out e1 = usb_data_out e0"
      "blocks_per_transfer e1 = blocks_per_transfer e0"
      "usb_data_out_blk_len e1 = usb_data_out_blk_len e0"
      "device_desc e1 = device_desc e0"
    and f: "frames e1 = 0"
    by (auto simp: ow_engine_activate_with_dll_def activate_threads_def Let_def
        split: if_splits)
  have "out_layout ps e1"
    using assms(1) out_layout_same [OF v] by simp
  then show "out_inv ps 0 e1"
    by (simp add: out_inv_def f)
  show "blocks_per_transfer e1 = blocks_per_transfer e0"
    by (rule v)
qed

subsection \<open>Byte counts that pass through an int\<close>

lemma int_of_size_t_small: "n < 2 ^ 31 \<Longrightarrow> int_of_size_t n = int n"
  unfolding int_of_size_t_def by simp

lemma size_t_of_int_nat: "n < 2 ^ 64 \<Longrightarrow> size_t_of_int (int n) = n"
proof -
  assume "n < 2 ^ 64"
  then have "int n < 2 ^ 64" by (metis of_nat_less_iff of_nat_numeral of_nat_power)
  then show ?thesis
    unfolding size_t_of_int_def by simp
qed

lemma frame_bytes_Some:
  assumes "0 < fs" "fs < 2 ^ 31"
  shows "map_option size_t_of_int (ow_bytes_to_frame_bytes (int_of_size_t rs) (int_of_size_t fs))
     = Some (size_t_of_int (int_of_size_t rs sdiv int fs * int fs))"
  using assms by (simp add: int_of_size_t_small ow_bytes_to_frame_bytes_def)

lemma frame_bytes_small:
  assumes "rs < 2 ^ 31" "0 < fs" "fs < 2 ^ 31"
  shows "size_t_of_int (int_of_size_t rs sdiv int fs * int fs) = rs div fs * fs"
proof -
  have "rs div fs * fs \<le> rs" by simp
  from this assms(1) have "rs div fs * fs < 2 ^ 31" by (rule le_less_trans)
  moreover have "(2::nat) ^ 31 < 2 ^ 64" by simp
  ultimately have b: "rs div fs * fs < 2 ^ 64" by (rule less_trans)
  have "int rs sdiv int fs = int (rs div fs)"
    using assms(2) by (simp add: signed_divide_int_def zdiv_int sgn_if)
  then have q: "int_of_size_t rs sdiv int fs = int (rs div fs)"
    using assms(1) by (simp add: int_of_size_t_small)
  show ?thesis
    unfolding q using size_t_of_int_nat [OF b] by (simp only: of_nat_mult)
qed

subsection \<open>Out-cycles return\<close>

lemma set_blocks_keeps:
  "io_buffers (set_blocks ps e) = io_buffers e"
  "p2o_frame_size (set_blocks ps e) = p2o_frame_size e"
proof -
  obtain fr mem where "set_blocks ps e = e\<lparr>frames := fr, usb_data_out := mem\<rparr>"
    using set_blocks_shape by blast
  then show "io_buffers (set_blocks ps e) = io_buffers e"
    "p2o_frame_size (set_blocks ps e) = p2o_frame_size e"
    by simp_all
qed

lemma host_ok_set_blocks: "host_ok (set_blocks ps e) = host_ok e"
  by (simp add: host_ok_def set_blocks_keeps)

lemma p2o_underflow_Some:
  assumes "0 < p2o_frame_size e"
    and "read io = Some rd" and "read_space io = Some rs"
  shows "\<exists>e'. p2o_underflow ps e io ring n = Some e'
           \<and> (p2o_frame_size e < 2 ^ 31 \<longrightarrow> host_ok e')"
  using assms
  by (simp add: p2o_underflow_def Let_def host_ok_def error_print_def split: prod.splits)

lemma set_usb_output_data_blks_Some:
  assumes "host_ok e"
  shows "\<exists>e'. set_usb_output_data_blks ps e = Some e' \<and> host_ok e'"
proof -
  from assms obtain io rs rd ring where io: "io_buffers e = Some io" "read_space io = Some rs"
    "read io = Some rd" "p2o_audio io = Some ring"
    and fs: "0 < p2o_frame_size e \<and> p2o_frame_size e < 2 ^ 31"
    by (auto simp: host_ok_def split: option.splits)
  show ?thesis
  proof (cases "reading_at_p2o_end e")
    case False
    then show ?thesis
      using io fs
      by (simp add: set_usb_output_data_blks_def Let_def frame_bytes_Some
          host_ok_def set_blocks_keeps)
  next
    case True
    note rd = True
    show ?thesis
    proof (cases "ow_engine_is_p2o_audio_enable e")
      case False
      then show ?thesis
        using io fs rd
        by (simp add: set_usb_output_data_blks_def Let_def host_ok_def set_blocks_keeps)
    next
      case True
      note en = True
      show ?thesis
      proof (cases "p2o_transfer_size e \<le> rs ring")
        case True
        then show ?thesis
          using io fs rd en
          by (simp add: set_usb_output_data_blks_def Let_def host_ok_def set_blocks_keeps
              split: prod.splits)
      next
        case False
        define e1 where "e1 = (if p2o_max_latency e < rs ring
                     then e\<lparr>p2o_latency := rs ring, p2o_max_latency := rs ring\<rparr>
                     else e\<lparr>p2o_latency := rs ring\<rparr>)"
        have 1: "0 < p2o_frame_size e1" and 2: "p2o_frame_size e1 < 2 ^ 31"
          using fs by (simp_all add: e1_def)
        from p2o_underflow_Some [OF 1 io(3,2), of ps ring "rs ring"] 2
        obtain e2 where u: "p2o_underflow ps e1 io ring (rs ring) = Some e2" and ok: "host_ok e2"
          by blast
        have "set_usb_output_data_blks ps e = Some (set_blocks ps e2)"
          using io rd en False u
          by (auto simp: set_usb_output_data_blks_def Let_def e1_def split: if_splits)
        then show ?thesis
          using ok by (simp add: host_ok_set_blocks)
      qed
    qed
  qed
qed

lemma host_ok_prepare_cycle_out [simp]: "host_ok (prepare_cycle_out e err) = host_ok e"
  by (simp add: host_ok_def prepare_cycle_out_def ow_engine_set_status_def error_print_def Let_def)

lemma out_cycles_run:
  assumes "host_ok e"
  shows "\<exists>e'. engine_steps ps (replicate m (STEP_CALLBACK (COMPLETE_OUT st err))) (PC_EVENTS, e)
           = Some (PC_EVENTS, e') \<and> host_ok e'"
  using assms
proof (induction m arbitrary: e)
  case 0
  then show ?case by simp
next
  case (Suc m)
  have "host_ok (if st \<noteq> LIBUSB_TRANSFER_COMPLETED
       then error_print ''j2o: Error on USB audio transfer'' e else e)"
    using Suc.prems by (simp add: host_ok_def error_print_def)
  from set_usb_output_data_blks_Some [OF this, of ps]
  obtain e1 where 1: "set_usb_output_data_blks ps (if st \<noteq> LIBUSB_TRANSFER_COMPLETED
       then error_print ''j2o: Error on USB audio transfer'' e else e) = Some e1"
    and 2: "host_ok e1"
    by blast
  have 3: "engine_step ps (STEP_CALLBACK (COMPLETE_OUT st err)) (PC_EVENTS, e)
      = Some (PC_EVENTS, prepare_cycle_out e1 err)"
    using 1 by (simp add: cb_xfr_out_def Let_def)
  have "host_ok (prepare_cycle_out e1 err)"
    using 2 by simp
  from Suc.IH [OF this] 3 show ?case
    by simp
qed

lemma engine_steps_append:
  "engine_steps ps (xs @ ys) c =
     (case engine_steps ps xs c of None \<Rightarrow> None | Some c' \<Rightarrow> engine_steps ps ys c')"
  by (induction xs arbitrary: c) (simp_all split: option.splits)

lemma boot_steps_run:
  assumes "dll_ow e = None"
  shows "engine_steps ps boot_steps (PC_SPIN, e) =
     Some (PC_EVENTS,
           e\<lparr>status := OW_STATUS_WAIT, p2o_latency := 0, p2o_max_latency := 0,
              reading_at_p2o_end := False,
              submitted := submitted e @ [XFR_IN, XFR_OUT] @ (if midi e then [XFR_IN_MIDI] else [])\<rparr>)"
  using assms
  by (simp add: boot_steps_def ow_engine_set_status_def ow_engine_get_status_def
      prepare_cycle_in_def prepare_cycle_out_def prepare_cycle_in_midi_def thread_top_def Let_def
      less_eq_ow_engine_status_t_def)

subsection \<open>The headers and the block counter on the wire\<close>

lemma bpt_engine_step:
  assumes "engine_step ps s (pc, e) = Some (pc', e')"
  shows "blocks_per_transfer e' = blocks_per_transfer e"
proof (cases "is_out_cycle s")
  case True
  then obtain st err where s: "s = STEP_CALLBACK (COMPLETE_OUT st err)"
    by (cases s rule: is_out_cycle.cases) simp_all
  define e0 where "e0 = (if st \<noteq> LIBUSB_TRANSFER_COMPLETED
       then error_print ''j2o: Error on USB audio transfer'' e else e)"
  from assms s have "cb_xfr_out ps e st err = Some e'"
    by (cases "pc = PC_EVENTS") auto
  then obtain e1 where 1: "set_usb_output_data_blks ps e0 = Some e1"
    and 2: "e' = prepare_cycle_out e1 err"
    unfolding cb_xfr_out_def Let_def e0_def [symmetric]
    by (cases "set_usb_output_data_blks ps e0") simp_all
  from set_usb_output_data_blks_set_blocks [OF 1]
  obtain e2 where 3: "e1 = set_blocks ps e2" and 4: "out_view e2 = out_view e0"
    by blast
  obtain fr mem where 5: "set_blocks ps e2 = e2\<lparr>frames := fr, usb_data_out := mem\<rparr>"
    using set_blocks_shape by blast
  have "blocks_per_transfer e1 = blocks_per_transfer e2"
    unfolding 3 5 by simp
  also have "\<dots> = blocks_per_transfer e0"
    using 4 by (simp add: out_view_def)
  also have "\<dots> = blocks_per_transfer e"
    by (simp add: e0_def error_print_def)
  finally have "blocks_per_transfer e1 = blocks_per_transfer e" .
  moreover have "out_view e' = out_view e1"
    unfolding 2 by simp
  ultimately show ?thesis by (simp add: out_view_def)
next
  case False
  from out_view_engine_step [OF assms False] show ?thesis
    by (simp add: out_view_def)
qed

lemma bpt_engine_steps:
  assumes "engine_steps ps steps (pc, e) = Some (pc', e')"
  shows "blocks_per_transfer e' = blocks_per_transfer e"
  using assms
proof (induction steps arbitrary: pc e)
  case Nil
  then show ?case by simp
next
  case (Cons s steps)
  from Cons.prems obtain pc1 e1 where 1: "engine_step ps s (pc, e) = Some (pc1, e1)"
    and 2: "engine_steps ps steps (pc1, e1) = Some (pc', e')"
    by (cases "engine_step ps s (pc, e)") auto
  from Cons.IH [OF 2] bpt_engine_step [OF 1] show ?case by simp
qed

lemma htobe16_07ff: "htobe16 0x07ff = [0x07, 0xff]"
  by (simp add: htobe16_def)

text \<open>The run of an engine from its initialization on.\<close>

lemma run_from_init:
  assumes init: "ow_engine_init ps ret desc n m0 = (r, Some e0)"
    and act: "ow_engine_activate_with_dll mt at e0 io dll = (OW_OK, e1)"
    and run: "engine_steps ps steps (pc0, e1) = Some (pc, e)"
  shows "out_layout ps e0" and "out_inv ps (out_cycles steps) e"
    and "blocks_per_transfer e0 = n" and "blocks_per_transfer e = n"
proof -
  note I = ow_engine_init_out [OF init]
  note A = out_inv_activate [OF I(1) act]
  from out_inv_engine_steps [OF A(1) run] show "out_inv ps (out_cycles steps) e"
    by simp
  show "out_layout ps e0" by (rule I(1))
  show "blocks_per_transfer e0 = n" by (rule I(2))
  show "blocks_per_transfer e = n"
    using bpt_engine_steps [OF run] A(2) I(2) by simp
qed

text \<open>
  C9. Every outgoing block's header is the two bytes \<^verbatim>\<open>07 ff\<close> (big-endian 0x07ff) when
  \<^verbatim>\<open>ow_engine_init\<close> returns, and after activation and any steps of the running engine
  (thread steps, callbacks and out-cycles among them, whatever the host does) the header
  of every block is still \<^verbatim>\<open>07 ff\<close> and its padding is what initialization left: an
  out-cycle changes only the \<^verbatim>\<open>frames\<close> field and the samples of a block.
\<close>

theorem out_headers_never_change:
  assumes init: "ow_engine_init ps ret desc n m0 = (r, Some e0)"
    and act: "ow_engine_activate_with_dll mt at e0 io dll = (OW_OK, e1)"
    and run: "engine_steps ps steps (pc0, e1) = Some (pc, e)"
    and k: "k < n"
  shows "out_blk_header k e0 = [0x07, 0xff]
         \<and> out_blk_header k e = [0x07, 0xff]
         \<and> out_blk_padding ps k e = out_blk_padding ps k e0"
proof -
  note R = run_from_init [OF init act run]
  from R(1) R(3) k have "out_blk_header k e0 = htobe16 0x07ff"
    and "out_blk_padding ps k e0 = replicate (OB_PADDING_SIZE ps) 0"
    by (simp_all add: out_layout_def)
  moreover from R(2) R(4) k have "out_blk_header k e = htobe16 0x07ff"
    and "out_blk_padding ps k e = replicate (OB_PADDING_SIZE ps) 0"
    by (simp_all add: out_inv_def out_layout_def)
  ultimately show ?thesis
    by (simp add: htobe16_07ff)
qed

text \<open>
  C2, as the code has it. After activation, the blocks the out-cycles encode carry an
  arithmetic progression modulo \<open>2 ^ 16\<close> with step \<^verbatim>\<open>OB_FRAMES_PER_BLOCK\<close>: the
  decoded \<^verbatim>\<open>frames\<close> field of block \<open>k\<close> of the transfer the \<open>t\<close>-th out-cycle
  encoded is \<open>((t - 1) * n + k + 1) * OB_FRAMES_PER_BLOCK mod 2 ^ 16\<close>, where \<open>n\<close> is
  the number of blocks in a transfer; the first block of the first encoded transfer
  carries \<^verbatim>\<open>OB_FRAMES_PER_BLOCK\<close>. The counter \<^verbatim>\<open>engine->frames\<close> has gone up by
  \<^verbatim>\<open>OB_FRAMES_PER_BLOCK\<close> for each block, modulo \<open>2 ^ 16\<close>, and the field holds it
  big-endian.
\<close>

theorem out_frames_progression:
  assumes init: "ow_engine_init ps ret desc n m0 = (r, Some e0)"
    and act: "ow_engine_activate_with_dll mt at e0 io dll = (OW_OK, e1)"
    and run: "engine_steps ps steps (pc0, e1) = Some (pc, e)"
    and k: "k < n"
    and t: "0 < out_cycles steps"
  shows "unat (out_blk_frames k e)
           = (((out_cycles steps - 1) * n + Suc k) * OB_FRAMES_PER_BLOCK ps) mod 2 ^ 16
         \<and> unat (frames e) = (out_cycles steps * (n * OB_FRAMES_PER_BLOCK ps)) mod 2 ^ 16"
proof -
  note R = run_from_init [OF init act run]
  from R(2) R(4) k t have "out_blk_frames k e
      = of_nat (((out_cycles steps - 1) * n + Suc k) * OB_FRAMES_PER_BLOCK ps)"
    and "frames e = of_nat (out_cycles steps * (n * OB_FRAMES_PER_BLOCK ps))"
    by (simp_all add: out_inv_def del: of_nat_mult of_nat_add of_nat_Suc)
  then show ?thesis
    by (simp add: unat_of_nat del: of_nat_mult of_nat_add of_nat_Suc)
qed

text \<open>The example engine.\<close>

lemma demo_init:
  "ow_engine_init demo_consts OW_OK \<lparr>inputs = 2, outputs = 4\<rparr> n blank_engine
     = (OW_OK, Some (demo_engine n))"
  by (simp add: ow_engine_init_def demo_engine_def)

lemma activate_demo_io:
  "fst (ow_engine_activate_with_dll True True e demo_io None) = OW_OK"
  by (simp add: ow_engine_activate_with_dll_def activate_threads_def demo_io_def Let_def)

lemma demo_activate:
  "ow_engine_activate_with_dll True True (demo_engine n) demo_io None = (OW_OK, demo_active n)"
  using activate_demo_io [of "demo_engine n"]
  by (simp add: demo_active_def ow_engine_activate_def prod_eq_iff)

lemma p2o_frame_size_activate:
  "p2o_frame_size (snd (ow_engine_activate_with_dll mt at e io dll)) = p2o_frame_size e"
  by (simp add: ow_engine_activate_with_dll_def activate_threads_def Let_def)

lemma p2o_frame_size_demo_engine: "p2o_frame_size (demo_engine n) = 8"
proof -
  note I = ow_engine_init_out [OF demo_init [of n]]
  have "out_view (demo_engine n) = out_view (init_headers
      (init_usb_buffers demo_consts \<lparr>inputs = 2, outputs = 4\<rparr> n blank_engine))"
    by (simp add: demo_engine_def)
  with I(3) have "device_desc (init_headers
      (init_usb_buffers demo_consts \<lparr>inputs = 2, outputs = 4\<rparr> n blank_engine))
        = \<lparr>inputs = 2, outputs = 4\<rparr>"
    by (simp add: out_view_def)
  then show ?thesis
    by (simp add: demo_engine_def init_transfer_buffers_def Let_def OB_BYTES_PER_SAMPLE_def)
qed

lemma host_ok_demo_active: "host_ok (demo_active n)"
  using activate_stores_arguments [of True True "demo_engine n" demo_io None]
    p2o_frame_size_activate [of True True "demo_engine n" demo_io None]
  by (simp add: host_ok_def demo_active_def ow_engine_activate_def p2o_frame_size_demo_engine
      demo_io_def)

lemma demo_run:
  "\<exists>e. engine_steps demo_consts (boot_steps @ replicate m out_cycle) (PC_SPIN, demo_active n)
         = Some (PC_EVENTS, e)"
proof -
  have "dll_ow (demo_active n) = None"
    using activate_stores_arguments [of True True "demo_engine n" demo_io None]
    by (simp add: demo_active_def ow_engine_activate_def)
  from boot_steps_run [OF this, of demo_consts]
  obtain e2 where 1: "engine_steps demo_consts boot_steps (PC_SPIN, demo_active n)
      = Some (PC_EVENTS, e2)"
    and 2: "e2 = (demo_active n)\<lparr>status := OW_STATUS_WAIT, p2o_latency := 0,
              p2o_max_latency := 0, reading_at_p2o_end := False,
              submitted := submitted (demo_active n) @ [XFR_IN, XFR_OUT]
                @ (if midi (demo_active n) then [XFR_IN_MIDI] else [])\<rparr>"
    by blast
  have "host_ok e2"
    using host_ok_demo_active [of n] unfolding 2 by (simp add: host_ok_def)
  from out_cycles_run [OF this, of demo_consts m LIBUSB_TRANSFER_COMPLETED 0]
  obtain e where "engine_steps demo_consts (replicate m out_cycle) (PC_EVENTS, e2)
      = Some (PC_EVENTS, e)"
    unfolding out_cycle_def by blast
  with 1 show ?thesis
    by (simp add: engine_steps_append)
qed

lemma out_cycles_demo: "out_cycles (boot_steps @ replicate m out_cycle :: 'r ow_step list) = m"
  by (simp add: out_cycles_def boot_steps_def out_cycle_def)

theorem out_headers_never_change_witness:
  "ow_engine_init demo_consts OW_OK \<lparr>inputs = 2, outputs = 4\<rparr> 2 blank_engine
     = (OW_OK, Some (demo_engine 2))
   \<and> ow_engine_activate_with_dll True True (demo_engine 2) demo_io None = (OW_OK, demo_active 2)
   \<and> map_option (out_blk_header 1 \<circ> snd)
       (engine_steps demo_consts (boot_steps @ replicate 3 out_cycle) (PC_SPIN, demo_active 2))
     = Some [0x07, 0xff]
   \<and> map_option (out_blk_padding demo_consts 1 \<circ> snd)
       (engine_steps demo_consts (boot_steps @ replicate 3 out_cycle) (PC_SPIN, demo_active 2))
     = Some (out_blk_padding demo_consts 1 (demo_engine 2))"
proof -
  obtain e where run: "engine_steps demo_consts (boot_steps @ replicate 3 out_cycle)
      (PC_SPIN, demo_active 2) = Some (PC_EVENTS, e)"
    using demo_run by blast
  have k: "(1::nat) < 2" by simp
  from out_headers_never_change [OF demo_init demo_activate run k] run demo_init demo_activate
  show ?thesis by simp
qed

theorem out_frames_progression_witness:
  "ow_engine_init demo_consts OW_OK \<lparr>inputs = 2, outputs = 4\<rparr> 2 blank_engine
     = (OW_OK, Some (demo_engine 2))
   \<and> ow_engine_activate_with_dll True True (demo_engine 2) demo_io None = (OW_OK, demo_active 2)
   \<and> 0 < out_cycles (boot_steps @ replicate 3 out_cycle :: demo_ring ow_step list)
   \<and> map_option (unat \<circ> out_blk_frames 1 \<circ> snd)
       (engine_steps demo_consts (boot_steps @ replicate 3 out_cycle) (PC_SPIN, demo_active 2))
     = Some 42"
proof -
  obtain e where run: "engine_steps demo_consts (boot_steps @ replicate 3 out_cycle)
      (PC_SPIN, demo_active 2) = Some (PC_EVENTS, e)"
    using demo_run by blast
  have k: "(1::nat) < 2" by simp
  have t: "0 < out_cycles (boot_steps @ replicate 3 out_cycle :: demo_ring ow_step list)"
    by (simp add: out_cycles_demo)
  from out_frames_progression [OF demo_init demo_activate run k t] run demo_init demo_activate t
  show ?thesis by (simp add: out_cycles_demo demo_consts_def)
qed

text \<open>
  The claim as written fails when the 16-bit counter wraps: with seven frames in a block
  and 24 blocks in a transfer, blocks 1 and 2 of the 391st encoded transfer carry 65534
  and 5.
\<close>

theorem out_frames_wrap_counterexample:
  "map_option (unat \<circ> out_blk_frames 1 \<circ> snd)
       (engine_steps demo_consts (boot_steps @ replicate 391 out_cycle) (PC_SPIN, demo_active 24))
     = Some 65534
   \<and> map_option (unat \<circ> out_blk_frames 2 \<circ> snd)
       (engine_steps demo_consts (boot_steps @ replicate 391 out_cycle) (PC_SPIN, demo_active 24))
     = Some 5
   \<and> OB_FRAMES_PER_BLOCK demo_consts = 7"
proof -
  obtain e where run: "engine_steps demo_consts (boot_steps @ replicate 391 out_cycle)
      (PC_SPIN, demo_active 24) = Some (PC_EVENTS, e)"
    using demo_run by blast
  note R = run_from_init [OF demo_init demo_activate run]
  have "out_blk_frames 1 e = of_nat (((391 - 1) * 24 + Suc 1) * 7)"
    and "out_blk_frames 2 e = of_nat (((391 - 1) * 24 + Suc 2) * 7)"
    using R(2) R(4) by (simp_all add: out_inv_def out_cycles_demo demo_consts_def)
  then have "unat (out_blk_frames 1 e) = 65534" and "unat (out_blk_frames 2 e) = 5"
    by (simp_all add: unat_of_nat)
  with run show ?thesis
    by (simp add: demo_consts_def)
qed

subsection \<open>Single out-cycles\<close>

lemma set_blocks_sel [simp]:
  "io_buffers (set_blocks ps e) = io_buffers e"
  "p2o_frame_size (set_blocks ps e) = p2o_frame_size e"
  "p2o_transfer_size (set_blocks ps e) = p2o_transfer_size e"
  "frames_per_transfer (set_blocks ps e) = frames_per_transfer e"
  "reading_at_p2o_end (set_blocks ps e) = reading_at_p2o_end e"
  "p2o_audio_enabled (set_blocks ps e) = p2o_audio_enabled e"
  "p2o_data (set_blocks ps e) = p2o_data e"
  "p2o_transfer_buf (set_blocks ps e) = p2o_transfer_buf e"
  "p2o_resampler_buf (set_blocks ps e) = p2o_resampler_buf e"
  "p2o_latency (set_blocks ps e) = p2o_latency e"
  "p2o_max_latency (set_blocks ps e) = p2o_max_latency e"
  "errors (set_blocks ps e) = errors e"
  "dll_ow (set_blocks ps e) = dll_ow e"
proof -
  obtain fr mem where "set_blocks ps e = e\<lparr>frames := fr, usb_data_out := mem\<rparr>"
    using set_blocks_shape by blast
  then show
    "io_buffers (set_blocks ps e) = io_buffers e"
    "p2o_frame_size (set_blocks ps e) = p2o_frame_size e"
    "p2o_transfer_size (set_blocks ps e) = p2o_transfer_size e"
    "frames_per_transfer (set_blocks ps e) = frames_per_transfer e"
    "reading_at_p2o_end (set_blocks ps e) = reading_at_p2o_end e"
    "p2o_audio_enabled (set_blocks ps e) = p2o_audio_enabled e"
    "p2o_data (set_blocks ps e) = p2o_data e"
    "p2o_transfer_buf (set_blocks ps e) = p2o_transfer_buf e"
    "p2o_resampler_buf (set_blocks ps e) = p2o_resampler_buf e"
    "p2o_latency (set_blocks ps e) = p2o_latency e"
    "p2o_max_latency (set_blocks ps e) = p2o_max_latency e"
    "errors (set_blocks ps e) = errors e"
    "dll_ow (set_blocks ps e) = dll_ow e"
    by simp_all
qed

text \<open>Changing the ring or the phase flag before the blocks are encoded or after is the same.\<close>

lemma set_block_commute:
  "set_block ps i (e\<lparr>io_buffers := x, reading_at_p2o_end := b\<rparr>, f)
     = (fst (set_block ps i (e, f))\<lparr>io_buffers := x, reading_at_p2o_end := b\<rparr>,
        snd (set_block ps i (e, f)))"
  by (simp add: set_block_def Let_def get_nth_usb_out_blk_def split: prod.splits)

lemma fold_set_block_commute:
  "fold (set_block ps) xs (e\<lparr>io_buffers := x, reading_at_p2o_end := b\<rparr>, f)
     = (fst (fold (set_block ps) xs (e, f))\<lparr>io_buffers := x, reading_at_p2o_end := b\<rparr>,
        snd (fold (set_block ps) xs (e, f)))"
proof (induction xs arbitrary: e f)
  case Nil
  then show ?case by simp
next
  case (Cons i xs)
  obtain e1 f1 where 1: "set_block ps i (e, f) = (e1, f1)"
    by (cases "set_block ps i (e, f)")
  have "set_block ps i (e\<lparr>io_buffers := x, reading_at_p2o_end := b\<rparr>, f)
      = (e1\<lparr>io_buffers := x, reading_at_p2o_end := b\<rparr>, f1)"
    by (simp add: set_block_commute 1)
  then show ?case
    using Cons.IH [of e1 f1] 1 by simp
qed

lemma set_blocks_commute:
  "set_blocks ps (e\<lparr>io_buffers := x, reading_at_p2o_end := b\<rparr>)
     = (set_blocks ps e)\<lparr>io_buffers := x, reading_at_p2o_end := b\<rparr>"
  by (simp add: set_blocks_def fold_set_block_commute)

text \<open>The first phase of the out-cycle, one cycle at a time.\<close>

lemma phase_a_step_int:
  assumes io: "io_buffers e = Some io" "read_space io = Some rs" "read io = Some rd"
      "p2o_audio io = Some ring"
    and fs: "0 < p2o_frame_size e" "p2o_frame_size e < 2 ^ 31"
    and ph: "\<not> reading_at_p2o_end e"
  shows "set_usb_output_data_blks ps e =
     Some (if ow_engine_is_p2o_audio_enable e \<and> p2o_transfer_size e \<le> rs ring
           then (set_blocks ps e)
                  \<lparr>io_buffers := Some (io\<lparr>p2o_audio :=
                     Some (fst (rd ring DST_NULL
                            (size_t_of_int (int_of_size_t (rs ring) sdiv int (p2o_frame_size e)
                               * int (p2o_frame_size e)))))\<rparr>),
                   reading_at_p2o_end := True\<rparr>
           else set_blocks ps e)"
  using io fs ph
  by (simp add: set_usb_output_data_blks_def Let_def frame_bytes_Some set_blocks_commute)

lemma phase_a_step:
  assumes io: "io_buffers e = Some io" "read_space io = Some rs" "read io = Some rd"
      "p2o_audio io = Some ring"
    and fs: "0 < p2o_frame_size e" "p2o_frame_size e < 2 ^ 31"
    and ph: "\<not> reading_at_p2o_end e"
    and rs: "rs ring < 2 ^ 31"
  shows "set_usb_output_data_blks ps e =
     Some (if ow_engine_is_p2o_audio_enable e \<and> p2o_transfer_size e \<le> rs ring
           then (set_blocks ps e)
                  \<lparr>io_buffers := Some (io\<lparr>p2o_audio :=
                     Some (fst (rd ring DST_NULL
                            (rs ring div p2o_frame_size e * p2o_frame_size e)))\<rparr>),
                   reading_at_p2o_end := True\<rparr>
           else set_blocks ps e)"
  using phase_a_step_int [OF io fs ph, of ps] frame_bytes_small [OF rs fs]
  by simp

text \<open>The underflow, one cycle at a time.\<close>

lemma underflow_step:
  assumes io: "io_buffers e = Some io" "read_space io = Some rs" "read io = Some rd"
      "p2o_audio io = Some ring"
    and fs: "0 < p2o_frame_size e"
    and ph: "reading_at_p2o_end e" and en: "ow_engine_is_p2o_audio_enable e"
    and un: "rs ring < p2o_transfer_size e"
  shows "\<exists>e'. set_usb_output_data_blks ps e = Some e'
     \<and> input_frames (p2o_data e') = rs ring div p2o_frame_size e
     \<and> src_ratio (p2o_data e')
         = DOUBLE_DIV (frames_per_transfer e) (rs ring div p2o_frame_size e)
     \<and> io_buffers e' = Some (io\<lparr>p2o_audio :=
          Some (fst (rd ring DST_BUF (rs ring div p2o_frame_size e * p2o_frame_size e)))\<rparr>)
     \<and> p2o_resampler_buf e' = store (p2o_resampler_buf e) 0
          (take (rs ring div p2o_frame_size e * p2o_frame_size e div 4)
             (snd (rd ring DST_BUF (rs ring div p2o_frame_size e * p2o_frame_size e))))
     \<and> reading_at_p2o_end e'"
proof -
  define e1 where "e1 = (if p2o_max_latency e < rs ring
                     then e\<lparr>p2o_latency := rs ring, p2o_max_latency := rs ring\<rparr>
                     else e\<lparr>p2o_latency := rs ring\<rparr>)"
  have e1: "p2o_frame_size e1 = p2o_frame_size e" "frames_per_transfer e1 = frames_per_transfer e"
    "p2o_resampler_buf e1 = p2o_resampler_buf e" "reading_at_p2o_end e1"
    using ph by (simp_all add: e1_def)
  obtain e2 where u: "p2o_underflow ps e1 io ring (rs ring) = Some e2"
    using p2o_underflow_Some [of e1 io rd rs ps ring "rs ring"] fs io e1 by auto
  then have props: "input_frames (p2o_data e2) = rs ring div p2o_frame_size e"
     "src_ratio (p2o_data e2)
         = DOUBLE_DIV (frames_per_transfer e) (rs ring div p2o_frame_size e)"
     "io_buffers e2 = Some (io\<lparr>p2o_audio :=
          Some (fst (rd ring DST_BUF (rs ring div p2o_frame_size e * p2o_frame_size e)))\<rparr>)"
     "p2o_resampler_buf e2 = store (p2o_resampler_buf e) 0
          (take (rs ring div p2o_frame_size e * p2o_frame_size e div 4)
             (snd (rd ring DST_BUF (rs ring div p2o_frame_size e * p2o_frame_size e))))"
     "reading_at_p2o_end e2"
    using fs io e1
    by (auto simp: p2o_underflow_def Let_def error_print_def split: prod.splits if_splits)
  have "set_usb_output_data_blks ps e = Some (set_blocks ps e2)"
    using io ph en un u
    by (auto simp: set_usb_output_data_blks_def Let_def e1_def split: if_splits)
  then show ?thesis
    using props by simp
qed

subsection \<open>The transfer buffer before the engine reads at the end of the ring\<close>

lemma store_full: "length xs = length mem \<Longrightarrow> store mem 0 xs = xs"
proof (rule nth_equalityI)
  assume l: "length xs = length mem"
  show "length (store mem 0 xs) = length xs" using l by simp
  fix i assume "i < length (store mem 0 xs)"
  then have "i < length xs" using l by simp
  from store_nth_in [of 0 xs mem i] l this show "store mem 0 xs ! i = xs ! i" by simp
qed

lemma memset_zero_full:
  "n div 4 = length buf \<Longrightarrow> memset_zero buf n = replicate (length buf) 0"
  by (simp add: memset_zero_def store_full)

lemma length_memset_zero [simp]: "length (memset_zero buf n) = length buf"
  by (simp add: memset_zero_def)

lemma p2o_phase_inv_view:
  "p2o_view e' = p2o_view e \<Longrightarrow> p2o_phase_inv pc e \<Longrightarrow> p2o_phase_inv pc e'"
  by (simp add: p2o_view_def p2o_phase_inv_def p2o_buf_zero_def)

lemma p2o_view_set_usb_input_data_blks:
  "set_usb_input_data_blks ps e = Some e' \<Longrightarrow> p2o_view e' = p2o_view e"
  by (auto simp: set_usb_input_data_blks_def Let_def error_print_def p2o_view_def
      split: if_splits prod.splits option.splits Option.bind_splits)

lemma p2o_view_prepare_cycle [simp]:
  "p2o_view (prepare_cycle_in e err) = p2o_view e"
  "p2o_view (prepare_cycle_out e err) = p2o_view e"
  "p2o_view (prepare_cycle_in_midi e err) = p2o_view e"
  "p2o_view (prepare_cycle_out_midi e err) = p2o_view e"
  by (simp_all add: prepare_cycle_in_def prepare_cycle_out_def prepare_cycle_in_midi_def
      prepare_cycle_out_midi_def ow_engine_set_status_def error_print_def Let_def p2o_view_def)

lemma p2o_view_cb_xfr_in_midi_event:
  "cb_xfr_in_midi_event ps now len e = Some e' \<Longrightarrow> p2o_view e' = p2o_view e"
  by (auto simp: cb_xfr_in_midi_event_def Let_def error_print_def p2o_view_def
      split: if_splits Option.bind_splits)

lemma p2o_view_cb_xfr_in_midi_loop:
  "cb_xfr_in_midi_loop ps now al len e = Some e' \<Longrightarrow> p2o_view e' = p2o_view e"
proof (induction ps now al len e rule: cb_xfr_in_midi_loop.induct)
  case (1 ps now al len e)
  show ?case
  proof (cases "len < al")
    case True
    then obtain e1 where a: "cb_xfr_in_midi_event ps now len e = Some e1"
      and b: "cb_xfr_in_midi_loop ps now al (len + OB_MIDI_EVENT_SIZE) e1 = Some e'"
      using "1.prems"
      by (auto simp: cb_xfr_in_midi_loop.simps [of ps now al len e] split: option.splits)
    from "1.IH" [OF True a b] p2o_view_cb_xfr_in_midi_event [OF a] show ?thesis by simp
  next
    case False
    then show ?thesis
      using "1.prems" by (simp add: cb_xfr_in_midi_loop.simps [of ps now al len e])
  qed
qed

lemma p2o_view_cb_xfr_in:
  "cb_xfr_in ps e st err = Some e' \<Longrightarrow> p2o_view e' = p2o_view e"
  by (auto simp: cb_xfr_in_def split: if_splits Option.bind_splits
      dest!: p2o_view_set_usb_input_data_blks)
     (simp add: error_print_def p2o_view_def)

lemma p2o_view_cb_xfr_in_midi:
  "cb_xfr_in_midi ps e st al err = Some e' \<Longrightarrow> p2o_view e' = p2o_view e"
  by (auto simp: cb_xfr_in_midi_def split: if_splits Option.bind_splits
      dest!: p2o_view_cb_xfr_in_midi_loop)
     (simp add: error_print_def p2o_view_def)

lemma p2o_view_cb_xfr_out_midi [simp]: "p2o_view (cb_xfr_out_midi e st) = p2o_view e"
  by (simp add: cb_xfr_out_midi_def error_print_def p2o_view_def Let_def)

lemma p2o_phase_inv_underflow:
  assumes "p2o_underflow ps e io ring n = Some e'"
  shows "p2o_transfer_size e' = p2o_transfer_size e
    \<and> length (p2o_transfer_buf e') = length (p2o_transfer_buf e)
    \<and> reading_at_p2o_end e' = reading_at_p2o_end e"
  using assms
  by (auto simp: p2o_underflow_def Let_def error_print_def
      split: if_splits prod.splits Option.bind_splits)

lemma p2o_phase_inv_out_cycle:
  assumes inv: "p2o_phase_inv PC_EVENTS e" and run: "set_usb_output_data_blks ps e = Some e'"
  shows "p2o_phase_inv PC_EVENTS e'"
proof -
  from inv have sz: "p2o_transfer_size e div 4 = length (p2o_transfer_buf e)"
    and z: "\<not> reading_at_p2o_end e \<Longrightarrow> p2o_buf_zero e"
    by (auto simp: p2o_phase_inv_def)
  have nb: "\<not> before_loop PC_EVENTS" by (simp add: before_loop_def)
  show ?thesis
  proof (cases "reading_at_p2o_end e")
    case False
    from run False z [OF False] sz show ?thesis
      by (auto simp: set_usb_output_data_blks_def Let_def p2o_phase_inv_def p2o_buf_zero_def
          split: if_splits Option.bind_splits)
  next
    case True
    note rd = True
    show ?thesis
    proof (cases "ow_engine_is_p2o_audio_enable e")
      case False
      from run rd False sz show ?thesis
        by (auto simp: set_usb_output_data_blks_def Let_def p2o_phase_inv_def p2o_buf_zero_def
            memset_zero_full split: Option.bind_splits)
    next
      case True
      from run rd True sz nb show ?thesis
        by (auto simp: set_usb_output_data_blks_def Let_def p2o_phase_inv_def
            split: if_splits prod.splits Option.bind_splits
            dest!: p2o_phase_inv_underflow)
    qed
  qed
qed

subsection \<open>The audio thread and the transfer buffer\<close>

lemma p2o_phase_inv_thread:
  assumes "p2o_phase_inv pc e" and "run_audio_o2p_midi ps err (pc, e) = Some (pc', e')"
  shows "p2o_phase_inv pc' e'"
proof (cases pc)
  case PC_TOP
  with assms show ?thesis
    by (auto simp: p2o_phase_inv_def before_loop_def p2o_buf_zero_def thread_top_def Let_def
        split: option.splits Option.bind_splits)
next
  case PC_DRAIN
  with assms show ?thesis
    by (auto simp: p2o_phase_inv_def p2o_buf_zero_def thread_drain_def Let_def memset_zero_full
        split: Option.bind_splits)
next
  case PC_SPIN
  with assms show ?thesis
    by (auto simp: p2o_phase_inv_def before_loop_def split: if_splits)
next
  case PC_PREPARE_IN
  with assms have "p2o_view e' = p2o_view e" and "pc' = PC_PREPARE_OUT" by auto
  with assms(1) PC_PREPARE_IN show ?thesis
    by (simp add: p2o_phase_inv_def p2o_view_def p2o_buf_zero_def before_loop_def)
next
  case PC_PREPARE_OUT
  with assms have "p2o_view e' = p2o_view e" and "pc' = PC_PREPARE_IN_MIDI" by auto
  with assms(1) PC_PREPARE_OUT show ?thesis
    by (simp add: p2o_phase_inv_def p2o_view_def p2o_buf_zero_def before_loop_def)
next
  case PC_PREPARE_IN_MIDI
  with assms have "p2o_view e' = p2o_view e" and "pc' = PC_TOP" by auto
  with assms(1) PC_PREPARE_IN_MIDI show ?thesis
    by (simp add: p2o_phase_inv_def p2o_view_def p2o_buf_zero_def before_loop_def)
next
  case PC_LOOP
  with assms show ?thesis
    by (auto simp: p2o_phase_inv_def before_loop_def split: if_splits)
next
  case PC_EVENTS
  with assms show ?thesis
    by (auto simp: p2o_phase_inv_def before_loop_def)
next
  case PC_CHECK
  with assms show ?thesis
    by (auto simp: p2o_phase_inv_def before_loop_def split: if_splits)
next
  case PC_REARM
  with assms show ?thesis
    by (auto simp: p2o_phase_inv_def before_loop_def p2o_buf_zero_def ow_engine_set_status_def)
next
  case PC_RETURN
  with assms show ?thesis
    by (auto simp: p2o_phase_inv_def before_loop_def)
qed

lemma p2o_phase_inv_usb_callback:
  assumes "p2o_phase_inv PC_EVENTS e" and "usb_callback ps ev e = Some e'"
  shows "p2o_phase_inv PC_EVENTS e'"
proof (cases ev)
  case (COMPLETE_IN st rx err)
  with assms(2) have "cb_xfr_in ps (e\<lparr>usb_data_in := store (usb_data_in e) 0 rx\<rparr>) st err = Some e'"
    by simp
  from p2o_view_cb_xfr_in [OF this] have "p2o_view e' = p2o_view e"
    by (simp add: p2o_view_def)
  from p2o_phase_inv_view [OF this assms(1)] show ?thesis .
next
  case (COMPLETE_OUT st err)
  define e0 where "e0 = (if st \<noteq> LIBUSB_TRANSFER_COMPLETED
       then error_print ''j2o: Error on USB audio transfer'' e else e)"
  from assms(2) COMPLETE_OUT
  have "set_usb_output_data_blks ps e0 \<bind> (\<lambda>x. Some (prepare_cycle_out x err)) = Some e'"
    by (simp add: cb_xfr_out_def Let_def e0_def)
  then obtain e1 where 1: "set_usb_output_data_blks ps e0 = Some e1"
    and 2: "e' = prepare_cycle_out e1 err"
    by (cases "set_usb_output_data_blks ps e0") auto
  have "p2o_view e0 = p2o_view e"
    by (simp add: e0_def error_print_def p2o_view_def)
  from p2o_phase_inv_view [OF this assms(1)] have "p2o_phase_inv PC_EVENTS e0" .
  from p2o_phase_inv_out_cycle [OF this 1] have 3: "p2o_phase_inv PC_EVENTS e1" .
  have "p2o_view e' = p2o_view e1"
    unfolding 2 by simp
  from p2o_phase_inv_view [OF this 3] show ?thesis .
next
  case (COMPLETE_IN_MIDI st al rx err)
  with assms(2) have "cb_xfr_in_midi ps (e\<lparr>o2p_midi_data := store (o2p_midi_data e) 0 rx\<rparr>)
      st al err = Some e'"
    by simp
  from p2o_view_cb_xfr_in_midi [OF this] have "p2o_view e' = p2o_view e"
    by (simp add: p2o_view_def)
  from p2o_phase_inv_view [OF this assms(1)] show ?thesis .
next
  case (COMPLETE_OUT_MIDI st)
  with assms(2) have "e' = cb_xfr_out_midi e st"
    by simp
  then have "p2o_view e' = p2o_view e" by simp
  from p2o_phase_inv_view [OF this assms(1)] show ?thesis .
qed

lemma p2o_phase_inv_engine_step:
  assumes "p2o_phase_inv pc e" and "engine_step ps s (pc, e) = Some (pc', e')"
  shows "p2o_phase_inv pc' e'"
proof (cases s)
  case (STEP_THREAD err)
  with assms(2) have "run_audio_o2p_midi ps err (pc, e) = Some (pc', e')"
    by simp
  from p2o_phase_inv_thread [OF assms(1) this] show ?thesis .
next
  case (STEP_CALLBACK ev)
  with assms(2) have 1: "usb_callback ps ev e = Some e'" and 2: "pc = PC_EVENTS" "pc' = PC_EVENTS"
    by (cases "pc = PC_EVENTS"; auto)+
  from p2o_phase_inv_usb_callback [OF _ 1] assms(1) 2 show ?thesis by simp
next
  case STEP_STOP
  with assms(2) have "e' = ow_engine_stop e" "pc' = pc" by simp_all
  then have "p2o_view e' = p2o_view e" "pc' = pc"
    by (simp_all add: ow_engine_stop_def ow_engine_set_status_def p2o_view_def)
  with p2o_phase_inv_view [OF this(1) assms(1)] show ?thesis by simp
next
  case (STEP_P2O_MIDI_SUBMIT err)
  with assms(2) have "e' = prepare_cycle_out_midi (e\<lparr>p2o_midi_ready := False\<rparr>) err" "pc' = pc"
    by simp_all
  then have "p2o_view e' = p2o_view (e\<lparr>p2o_midi_ready := False\<rparr>)" "pc' = pc" by simp_all
  then have "p2o_view e' = p2o_view e" "pc' = pc" by (simp_all add: p2o_view_def)
  with p2o_phase_inv_view [OF this(1) assms(1)] show ?thesis by simp
next
  case (STEP_SET_STATUS st)
  with assms(2) have "e' = ow_engine_set_status e st" "pc' = pc" by simp_all
  then have "p2o_view e' = p2o_view e" "pc' = pc"
    by (simp_all add: ow_engine_set_status_def p2o_view_def)
  with p2o_phase_inv_view [OF this(1) assms(1)] show ?thesis by simp
next
  case (STEP_SET_P2O_AUDIO_ENABLE b)
  with assms(2) have "e' = ow_engine_set_p2o_audio_enable e b" "pc' = pc" by simp_all
  then have "p2o_view e' = p2o_view e" "pc' = pc"
    by (simp_all add: ow_engine_set_p2o_audio_enable_def p2o_view_def)
  with p2o_phase_inv_view [OF this(1) assms(1)] show ?thesis by simp
next
  case (STEP_HOST_RINGS h)
  with assms(2) have "e' = e\<lparr>io_buffers := map_option h (io_buffers e)\<rparr>" "pc' = pc" by simp_all
  then have "p2o_view e' = p2o_view e" "pc' = pc"
    by (simp_all add: p2o_view_def)
  with p2o_phase_inv_view [OF this(1) assms(1)] show ?thesis by simp
qed

lemma p2o_phase_inv_engine_steps:
  assumes "p2o_phase_inv pc e" and "engine_steps ps steps (pc, e) = Some (pc', e')"
  shows "p2o_phase_inv pc' e'"
  using assms
proof (induction steps arbitrary: pc e)
  case Nil
  then show ?case by simp
next
  case (Cons s steps)
  from Cons.prems(2) obtain pc1 e1 where 1: "engine_step ps s (pc, e) = Some (pc1, e1)"
    and 2: "engine_steps ps steps (pc1, e1) = Some (pc', e')"
    by (cases "engine_step ps s (pc, e)") auto
  from p2o_phase_inv_engine_step [OF Cons.prems(1) 1] have "p2o_phase_inv pc1 e1" .
  from Cons.IH [OF this 2] show ?case .
qed

lemma p2o_phase_inv_init:
  assumes init: "ow_engine_init ps ret desc n m0 = (r, Some e0)"
    and act: "ow_engine_activate_with_dll mt at e0 io dll = (r', e1)"
  shows "p2o_phase_inv pc e1"
proof -
  from init have "e0 = init_transfer_buffers (init_headers (init_usb_buffers ps desc n m0))"
    by (auto simp: ow_engine_init_def split: if_splits)
  then have "p2o_transfer_size e0 div 4 = length (p2o_transfer_buf e0)" "p2o_buf_zero e0"
    by (simp_all add: init_transfer_buffers_def Let_def p2o_buf_zero_def)
  moreover from act have "p2o_view e1 = p2o_view e0"
    by (auto simp: ow_engine_activate_with_dll_def activate_threads_def Let_def p2o_view_def
        split: if_splits)
  ultimately show ?thesis
    by (simp add: p2o_phase_inv_def p2o_view_def p2o_buf_zero_def)
qed

subsection \<open>The example engine, running\<close>

lemma init_headers_shape: "\<exists>mem. init_headers e = e\<lparr>usb_data_out := mem\<rparr>"
proof -
  have "\<exists>mem. fold (\<lambda>i engine. engine\<lparr>usb_data_out :=
               store (usb_data_out engine)
                 (get_nth_usb_out_blk engine i + blk_header) (htobe16 0x07ff)\<rparr>) xs x
           = x\<lparr>usb_data_out := mem\<rparr>" for xs and x :: "'a ow_engine"
  proof (induction xs arbitrary: x)
    case Nil
    show ?case by (auto intro: exI [of _ "usb_data_out x"])
  next
    case (Cons i xs)
    define x1 where "x1 = x\<lparr>usb_data_out :=
               store (usb_data_out x) (get_nth_usb_out_blk x i + blk_header) (htobe16 0x07ff)\<rparr>"
    from Cons.IH [of x1] obtain mem where "fold (\<lambda>i engine. engine\<lparr>usb_data_out :=
               store (usb_data_out engine)
                 (get_nth_usb_out_blk engine i + blk_header) (htobe16 0x07ff)\<rparr>) xs x1
           = x1\<lparr>usb_data_out := mem\<rparr>"
      by blast
    then have "fold (\<lambda>i engine. engine\<lparr>usb_data_out :=
               store (usb_data_out engine)
                 (get_nth_usb_out_blk engine i + blk_header) (htobe16 0x07ff)\<rparr>) (i # xs) x
           = x\<lparr>usb_data_out := mem\<rparr>"
      by (simp add: x1_def)
    then show ?case by blast
  qed
  then show ?thesis
    unfolding init_headers_def by blast
qed

lemma demo_engine_sel:
  "p2o_transfer_size (demo_engine n) = 56 * n"
  "frames_per_transfer (demo_engine n) = 7 * n"
  "\<not> p2o_audio_enabled (demo_engine n)"
proof -
  obtain mem where "init_headers (init_usb_buffers demo_consts \<lparr>inputs = 2, outputs = 4\<rparr> n
      blank_engine) = (init_usb_buffers demo_consts \<lparr>inputs = 2, outputs = 4\<rparr> n blank_engine)
        \<lparr>usb_data_out := mem\<rparr>"
    using init_headers_shape by blast
  then show "p2o_transfer_size (demo_engine n) = 56 * n"
    "frames_per_transfer (demo_engine n) = 7 * n"
    "\<not> p2o_audio_enabled (demo_engine n)"
    by (simp_all add: demo_engine_def init_transfer_buffers_def init_usb_buffers_def Let_def
        OB_BYTES_PER_SAMPLE_def demo_consts_def)
qed

lemma demo_active_sel:
  "p2o_frame_size (demo_active n) = 8"
  "p2o_transfer_size (demo_active n) = 56 * n"
  "frames_per_transfer (demo_active n) = 7 * n"
  "\<not> p2o_audio_enabled (demo_active n)"
  "io_buffers (demo_active n) = Some demo_io"
  "dll_ow (demo_active n) = None"
  using activate_stores_arguments [of True True "demo_engine n" demo_io None]
  by (simp_all add: demo_active_def ow_engine_activate_def p2o_frame_size_activate
      p2o_frame_size_demo_engine demo_engine_sel ow_engine_activate_with_dll_def
      activate_threads_def Let_def demo_io_def)

text \<open>
  The example engine after the boot, with p2o audio enabled and \<open>b\<close> bytes written by
  the host.
\<close>

lemma demo_fed:
  assumes "b \<le> 4096"
  shows "\<exists>e. engine_steps demo_consts
           (boot_steps @ [STEP_SET_P2O_AUDIO_ENABLE True, STEP_HOST_RINGS (host_writes b)])
           (PC_SPIN, demo_active n) = Some (PC_EVENTS, e)
       \<and> io_buffers e = Some (demo_io\<lparr>p2o_audio := Some (b, 4096)\<rparr>)
       \<and> \<not> reading_at_p2o_end e \<and> ow_engine_is_p2o_audio_enable e
       \<and> p2o_frame_size e = 8 \<and> p2o_transfer_size e = 56 * n
       \<and> frames_per_transfer e = 7 * n"
proof -
  define e2 where "e2 = (demo_active n)\<lparr>status := OW_STATUS_WAIT, p2o_latency := 0,
              p2o_max_latency := 0, reading_at_p2o_end := False,
              submitted := submitted (demo_active n) @ [XFR_IN, XFR_OUT]
                @ (if midi (demo_active n) then [XFR_IN_MIDI] else [])\<rparr>"
  have 1: "engine_steps demo_consts boot_steps (PC_SPIN, demo_active n) = Some (PC_EVENTS, e2)"
    unfolding e2_def by (rule boot_steps_run) (rule demo_active_sel)
  define e3 where "e3 = e2\<lparr>p2o_audio_enabled := True,
      io_buffers := Some (demo_io\<lparr>p2o_audio := Some (b, 4096)\<rparr>)\<rparr>"
  have "host_writes b demo_io = demo_io\<lparr>p2o_audio := Some (b, 4096)\<rparr>"
    using assms by (simp add: host_writes_def demo_io_def demo_write_def)
  then have 2: "engine_steps demo_consts
      [STEP_SET_P2O_AUDIO_ENABLE True, STEP_HOST_RINGS (host_writes b)] (PC_EVENTS, e2)
        = Some (PC_EVENTS, e3)"
    by (simp add: e3_def e2_def ow_engine_set_p2o_audio_enable_def
        ow_engine_is_p2o_audio_enable_def demo_active_sel)
  have "io_buffers e3 = Some (demo_io\<lparr>p2o_audio := Some (b, 4096)\<rparr>)"
    "\<not> reading_at_p2o_end e3" "ow_engine_is_p2o_audio_enable e3"
    "p2o_frame_size e3 = 8" "p2o_transfer_size e3 = 56 * n" "frames_per_transfer e3 = 7 * n"
    by (simp_all add: e3_def e2_def ow_engine_is_p2o_audio_enable_def demo_active_sel)
  with 1 2 show ?thesis
    by (simp add: engine_steps_append)
qed

lemma out_cycle_step:
  "engine_step ps out_cycle (PC_EVENTS, e) =
     map_option (\<lambda>e'. (PC_EVENTS, e'\<lparr>submitted := submitted e' @ [XFR_OUT]\<rparr>))
       (set_usb_output_data_blks ps e)"
  by (cases "set_usb_output_data_blks ps e")
    (simp_all add: out_cycle_def cb_xfr_out_def prepare_cycle_out_def Let_def)

text \<open>
  The example engine after the cycle that discards what the ring holds, and after the
  host has written \<open>c\<close> bytes more.
\<close>

lemma demo_caught_up:
  assumes "56 * n \<le> b" and "b \<le> 4096"
  shows "\<exists>e. engine_steps demo_consts
           (boot_steps @ [STEP_SET_P2O_AUDIO_ENABLE True, STEP_HOST_RINGS (host_writes b),
              out_cycle])
           (PC_SPIN, demo_active n) = Some (PC_EVENTS, e)
       \<and> io_buffers e = Some (demo_io\<lparr>p2o_audio := Some (b - b div 8 * 8, 4096)\<rparr>)
       \<and> reading_at_p2o_end e \<and> ow_engine_is_p2o_audio_enable e
       \<and> p2o_frame_size e = 8 \<and> p2o_transfer_size e = 56 * n
       \<and> frames_per_transfer e = 7 * n"
proof -
  from demo_fed [OF assms(2), of n] obtain e where
    run: "engine_steps demo_consts
           (boot_steps @ [STEP_SET_P2O_AUDIO_ENABLE True, STEP_HOST_RINGS (host_writes b)])
           (PC_SPIN, demo_active n) = Some (PC_EVENTS, e)"
    and io: "io_buffers e = Some (demo_io\<lparr>p2o_audio := Some (b, 4096)\<rparr>)"
    and ph: "\<not> reading_at_p2o_end e" and en: "ow_engine_is_p2o_audio_enable e"
    and sz: "p2o_frame_size e = 8" "p2o_transfer_size e = 56 * n"
      "frames_per_transfer e = 7 * n"
    by blast
  have m: "read_space (demo_io\<lparr>p2o_audio := Some (b, 4096)\<rparr>) = Some fst"
    "read (demo_io\<lparr>p2o_audio := Some (b, 4096)\<rparr>) = Some demo_read"
    "p2o_audio (demo_io\<lparr>p2o_audio := Some (b, 4096)\<rparr>) = Some (b, 4096)"
    by (simp_all add: demo_io_def)
  have fs: "0 < p2o_frame_size e" "p2o_frame_size e < 2 ^ 31" using sz by simp_all
  have rs: "fst (b, 4096::nat) < 2 ^ 31" using assms(2) by simp
  define e4 where "e4 = (set_blocks demo_consts e)
        \<lparr>io_buffers := Some (demo_io\<lparr>p2o_audio := Some (b - b div 8 * 8, 4096)\<rparr>),
         reading_at_p2o_end := True,
         submitted := submitted (set_blocks demo_consts e) @ [XFR_OUT]\<rparr>"
  have "b div 8 * 8 \<le> b" by simp
  with phase_a_step [OF io m fs ph rs, of demo_consts] en sz assms(1)
  have "set_usb_output_data_blks demo_consts e =
      Some ((set_blocks demo_consts e)
        \<lparr>io_buffers := Some (demo_io\<lparr>p2o_audio := Some (b - b div 8 * 8, 4096)\<rparr>),
         reading_at_p2o_end := True\<rparr>)"
    by (simp add: demo_read_def min_def)
  then have "engine_steps demo_consts [out_cycle] (PC_EVENTS, e) = Some (PC_EVENTS, e4)"
    by (simp add: out_cycle_step e4_def)
  with run have "engine_steps demo_consts
          ((boot_steps @ [STEP_SET_P2O_AUDIO_ENABLE True, STEP_HOST_RINGS (host_writes b)])
             @ [out_cycle])
          (PC_SPIN, demo_active n) = Some (PC_EVENTS, e4)"
    by (simp only: engine_steps_append option.case)
  moreover have "io_buffers e4 = Some (demo_io\<lparr>p2o_audio := Some (b - b div 8 * 8, 4096)\<rparr>)"
    "reading_at_p2o_end e4" "ow_engine_is_p2o_audio_enable e4"
    "p2o_frame_size e4 = 8" "p2o_transfer_size e4 = 56 * n" "frames_per_transfer e4 = 7 * n"
    using en sz by (simp_all add: e4_def ow_engine_is_p2o_audio_enable_def)
  ultimately show ?thesis
    by simp
qed

lemma demo_steady:
  assumes "56 * n \<le> b" and "b \<le> 4096" and "b - b div 8 * 8 + c \<le> 4096"
  shows "\<exists>e. engine_steps demo_consts
           (boot_steps @ [STEP_SET_P2O_AUDIO_ENABLE True, STEP_HOST_RINGS (host_writes b),
              out_cycle, STEP_HOST_RINGS (host_writes c)])
           (PC_SPIN, demo_active n) = Some (PC_EVENTS, e)
       \<and> io_buffers e = Some (demo_io\<lparr>p2o_audio := Some (b - b div 8 * 8 + c, 4096)\<rparr>)
       \<and> reading_at_p2o_end e \<and> ow_engine_is_p2o_audio_enable e
       \<and> p2o_frame_size e = 8 \<and> p2o_transfer_size e = 56 * n
       \<and> frames_per_transfer e = 7 * n"
proof -
  from demo_caught_up [OF assms(1,2)] obtain e where
    run: "engine_steps demo_consts
           (boot_steps @ [STEP_SET_P2O_AUDIO_ENABLE True, STEP_HOST_RINGS (host_writes b),
              out_cycle])
           (PC_SPIN, demo_active n) = Some (PC_EVENTS, e)"
    and io: "io_buffers e = Some (demo_io\<lparr>p2o_audio := Some (b - b div 8 * 8, 4096)\<rparr>)"
    and ph: "reading_at_p2o_end e" and en: "ow_engine_is_p2o_audio_enable e"
    and sz: "p2o_frame_size e = 8" "p2o_transfer_size e = 56 * n"
      "frames_per_transfer e = 7 * n"
    by blast
  define e5 where "e5 = e\<lparr>io_buffers :=
      Some (demo_io\<lparr>p2o_audio := Some (b - b div 8 * 8 + c, 4096)\<rparr>)\<rparr>"
  have "host_writes c (demo_io\<lparr>p2o_audio := Some (b - b div 8 * 8, 4096)\<rparr>)
      = demo_io\<lparr>p2o_audio := Some (b - b div 8 * 8 + c, 4096)\<rparr>"
    using assms(3) by (simp add: host_writes_def demo_io_def demo_write_def)
  then have "engine_steps demo_consts [STEP_HOST_RINGS (host_writes c)] (PC_EVENTS, e)
      = Some (PC_EVENTS, e5)"
    using io by (simp add: e5_def)
  with run have "engine_steps demo_consts
          ((boot_steps @ [STEP_SET_P2O_AUDIO_ENABLE True, STEP_HOST_RINGS (host_writes b),
              out_cycle]) @ [STEP_HOST_RINGS (host_writes c)])
          (PC_SPIN, demo_active n) = Some (PC_EVENTS, e5)"
    by (simp only: engine_steps_append option.case)
  moreover have "io_buffers e5
      = Some (demo_io\<lparr>p2o_audio := Some (b - b div 8 * 8 + c, 4096)\<rparr>)"
    "reading_at_p2o_end e5" "ow_engine_is_p2o_audio_enable e5"
    "p2o_frame_size e5 = 8" "p2o_transfer_size e5 = 56 * n" "frames_per_transfer e5 = 7 * n"
    using ph en sz by (simp_all add: e5_def ow_engine_is_p2o_audio_enable_def)
  ultimately show ?thesis
    by simp
qed

text \<open>
  C1. In the steady state (\<^verbatim>\<open>reading_at_p2o_end\<close> true, p2o audio enabled), when the
  ring's read space is less than \<^verbatim>\<open>p2o_transfer_size\<close>, the out-cycle reads
  \<open>read_space div p2o_frame_size\<close> whole frames into the resampler buffer, stores that
  number in \<^verbatim>\<open>p2o_data.input_frames\<close> and sets \<^verbatim>\<open>src_ratio\<close> to
  \<^verbatim>\<open>frames_per_transfer\<close> divided by it. The number of frames is at least one exactly
  when the ring holds at least one frame; with less in the ring it is zero and the
  ratio is a division by zero.
\<close>

theorem underflow_available_frames:
  assumes io: "io_buffers e = Some io" "read_space io = Some rs" "read io = Some rd"
      "p2o_audio io = Some ring"
    and fs: "0 < p2o_frame_size e"
    and ph: "reading_at_p2o_end e" and en: "ow_engine_is_p2o_audio_enable e"
    and un: "rs ring < p2o_transfer_size e"
  shows "\<exists>e'. set_usb_output_data_blks ps e = Some e'
     \<and> input_frames (p2o_data e') = rs ring div p2o_frame_size e
     \<and> src_ratio (p2o_data e')
         = DOUBLE_DIV (frames_per_transfer e) (rs ring div p2o_frame_size e)
     \<and> io_buffers e' = Some (io\<lparr>p2o_audio :=
          Some (fst (rd ring DST_BUF (rs ring div p2o_frame_size e * p2o_frame_size e)))\<rparr>)
     \<and> p2o_resampler_buf e' = store (p2o_resampler_buf e) 0
          (take (rs ring div p2o_frame_size e * p2o_frame_size e div 4)
             (snd (rd ring DST_BUF (rs ring div p2o_frame_size e * p2o_frame_size e))))
     \<and> (1 \<le> input_frames (p2o_data e')) = (p2o_frame_size e \<le> rs ring)
     \<and> (rs ring < p2o_frame_size e) = (src_ratio (p2o_data e')
          = DOUBLE_DIV (frames_per_transfer e) 0)"
proof -
  from underflow_step [OF io fs ph en un, of ps] obtain e' where
    1: "set_usb_output_data_blks ps e = Some e'"
    and 2: "input_frames (p2o_data e') = rs ring div p2o_frame_size e"
    and 3: "src_ratio (p2o_data e')
         = DOUBLE_DIV (frames_per_transfer e) (rs ring div p2o_frame_size e)"
    and 4: "io_buffers e' = Some (io\<lparr>p2o_audio :=
          Some (fst (rd ring DST_BUF (rs ring div p2o_frame_size e * p2o_frame_size e)))\<rparr>)"
    and 5: "p2o_resampler_buf e' = store (p2o_resampler_buf e) 0
          (take (rs ring div p2o_frame_size e * p2o_frame_size e div 4)
             (snd (rd ring DST_BUF (rs ring div p2o_frame_size e * p2o_frame_size e))))"
    by blast
  have 6: "(1 \<le> rs ring div p2o_frame_size e) = (p2o_frame_size e \<le> rs ring)"
    using fs by (simp add: Suc_le_eq div_greater_zero_iff)
  have 7: "(rs ring < p2o_frame_size e) = (rs ring div p2o_frame_size e = 0)"
    using fs by (simp add: div_eq_0_iff)
  show ?thesis
    using 1 2 3 4 5 6 7 by simp
qed

theorem underflow_available_frames_witness:
  "map_option (reading_at_p2o_end \<circ> snd)
       (engine_steps demo_consts
          (boot_steps @ [STEP_SET_P2O_AUDIO_ENABLE True, STEP_HOST_RINGS (host_writes 140),
             out_cycle])
          (PC_SPIN, demo_active 2))
     = Some True
   \<and> map_option (map_option p2o_audio \<circ> io_buffers \<circ> snd)
       (engine_steps demo_consts
          (boot_steps @ [STEP_SET_P2O_AUDIO_ENABLE True, STEP_HOST_RINGS (host_writes 140),
             out_cycle, STEP_HOST_RINGS (host_writes 100)])
          (PC_SPIN, demo_active 2))
     = Some (Some (Some (104, 4096)))
   \<and> map_option (input_frames \<circ> p2o_data \<circ> snd)
       (engine_steps demo_consts
          (boot_steps @ [STEP_SET_P2O_AUDIO_ENABLE True, STEP_HOST_RINGS (host_writes 140),
             out_cycle, STEP_HOST_RINGS (host_writes 100), out_cycle])
          (PC_SPIN, demo_active 2))
     = Some 13
   \<and> map_option (src_ratio \<circ> p2o_data \<circ> snd)
       (engine_steps demo_consts
          (boot_steps @ [STEP_SET_P2O_AUDIO_ENABLE True, STEP_HOST_RINGS (host_writes 140),
             out_cycle, STEP_HOST_RINGS (host_writes 100), out_cycle])
          (PC_SPIN, demo_active 2))
     = Some (DOUBLE_DIV 14 13)
   \<and> map_option (map_option p2o_audio \<circ> io_buffers \<circ> snd)
       (engine_steps demo_consts
          (boot_steps @ [STEP_SET_P2O_AUDIO_ENABLE True, STEP_HOST_RINGS (host_writes 140),
             out_cycle, STEP_HOST_RINGS (host_writes 100), out_cycle])
          (PC_SPIN, demo_active 2))
     = Some (Some (Some (0, 4096)))"
proof -
  have a: "56 * 2 \<le> (140::nat)" "(140::nat) \<le> 4096"
    "140 - 140 div 8 * 8 + 100 \<le> (4096::nat)"
    by simp_all
  note D = demo_steady [OF a]
  from demo_caught_up [OF a(1,2)] obtain e3 where "engine_steps demo_consts
          (boot_steps @ [STEP_SET_P2O_AUDIO_ENABLE True, STEP_HOST_RINGS (host_writes 140),
             out_cycle])
          (PC_SPIN, demo_active 2) = Some (PC_EVENTS, e3)" and "reading_at_p2o_end e3"
    by blast
  then have run3: "map_option (reading_at_p2o_end \<circ> snd)
       (engine_steps demo_consts
          (boot_steps @ [STEP_SET_P2O_AUDIO_ENABLE True, STEP_HOST_RINGS (host_writes 140),
             out_cycle])
          (PC_SPIN, demo_active 2)) = Some True"
    by simp
  from D have S: "\<exists>e. engine_steps demo_consts
           (boot_steps @ [STEP_SET_P2O_AUDIO_ENABLE True, STEP_HOST_RINGS (host_writes 140),
              out_cycle, STEP_HOST_RINGS (host_writes 100)])
           (PC_SPIN, demo_active 2) = Some (PC_EVENTS, e)
       \<and> io_buffers e = Some (demo_io\<lparr>p2o_audio := Some (104, 4096)\<rparr>)
       \<and> reading_at_p2o_end e \<and> ow_engine_is_p2o_audio_enable e
       \<and> p2o_frame_size e = 8 \<and> p2o_transfer_size e = 112
       \<and> frames_per_transfer e = 14"
    by simp
  obtain e4 where run4: "engine_steps demo_consts
          (boot_steps @ [STEP_SET_P2O_AUDIO_ENABLE True, STEP_HOST_RINGS (host_writes 140),
             out_cycle, STEP_HOST_RINGS (host_writes 100)])
          (PC_SPIN, demo_active 2) = Some (PC_EVENTS, e4)"
    and io: "io_buffers e4 = Some (demo_io\<lparr>p2o_audio := Some (104, 4096)\<rparr>)"
    and ph: "reading_at_p2o_end e4" and en: "ow_engine_is_p2o_audio_enable e4"
    and sz: "p2o_frame_size e4 = 8" "p2o_transfer_size e4 = 112" "frames_per_transfer e4 = 14"
    using S by blast
  have m: "read_space (demo_io\<lparr>p2o_audio := Some (104, 4096)\<rparr>) = Some fst"
    "read (demo_io\<lparr>p2o_audio := Some (104, 4096)\<rparr>) = Some demo_read"
    "p2o_audio (demo_io\<lparr>p2o_audio := Some (104, 4096)\<rparr>) = Some (104, 4096)"
    by (simp_all add: demo_io_def)
  have fs: "0 < p2o_frame_size e4" using sz by simp
  have un: "fst (104::nat, 4096::nat) < p2o_transfer_size e4" using sz by simp
  from underflow_available_frames [OF io m fs ph en un, of demo_consts]
  obtain e5 where 1: "set_usb_output_data_blks demo_consts e4 = Some e5"
    and 2: "input_frames (p2o_data e5) = 13"
    and 3: "src_ratio (p2o_data e5) = DOUBLE_DIV 14 13"
    and 4: "io_buffers e5 = Some (demo_io\<lparr>p2o_audio := Some (0, 4096)\<rparr>)"
    using sz by (auto simp: demo_read_def)
  from 1 have "engine_steps demo_consts [out_cycle] (PC_EVENTS, e4) =
      Some (PC_EVENTS, e5\<lparr>submitted := submitted e5 @ [XFR_OUT]\<rparr>)"
    by (simp add: out_cycle_step)
  with run4 have run5: "engine_steps demo_consts
          ((boot_steps @ [STEP_SET_P2O_AUDIO_ENABLE True, STEP_HOST_RINGS (host_writes 140),
             out_cycle, STEP_HOST_RINGS (host_writes 100)]) @ [out_cycle])
          (PC_SPIN, demo_active 2) =
      Some (PC_EVENTS, e5\<lparr>submitted := submitted e5 @ [XFR_OUT]\<rparr>)"
    by (simp only: engine_steps_append option.case)
  show ?thesis
    using run3 run4 run5 io 2 3 4 by simp
qed

text \<open>
  The claim as written fails when the ring holds less than one frame: the example host
  writes 112 bytes, fourteen whole frames, the first out-cycle discards them all and the
  second finds the ring empty in steady state: it reads no frame and divides by zero.
\<close>

theorem underflow_zero_frames_counterexample:
  "map_option (reading_at_p2o_end \<circ> snd)
       (engine_steps demo_consts
          (boot_steps @ [STEP_SET_P2O_AUDIO_ENABLE True, STEP_HOST_RINGS (host_writes 112),
             out_cycle])
          (PC_SPIN, demo_active 2))
     = Some True
   \<and> map_option (ow_engine_is_p2o_audio_enable \<circ> snd)
       (engine_steps demo_consts
          (boot_steps @ [STEP_SET_P2O_AUDIO_ENABLE True, STEP_HOST_RINGS (host_writes 112),
             out_cycle])
          (PC_SPIN, demo_active 2))
     = Some True
   \<and> map_option (map_option p2o_audio \<circ> io_buffers \<circ> snd)
       (engine_steps demo_consts
          (boot_steps @ [STEP_SET_P2O_AUDIO_ENABLE True, STEP_HOST_RINGS (host_writes 112),
             out_cycle])
          (PC_SPIN, demo_active 2))
     = Some (Some (Some (0, 4096)))
   \<and> map_option (p2o_transfer_size \<circ> snd)
       (engine_steps demo_consts
          (boot_steps @ [STEP_SET_P2O_AUDIO_ENABLE True, STEP_HOST_RINGS (host_writes 112),
             out_cycle])
          (PC_SPIN, demo_active 2))
     = Some 112
   \<and> map_option (input_frames \<circ> p2o_data \<circ> snd)
       (engine_steps demo_consts
          (boot_steps @ [STEP_SET_P2O_AUDIO_ENABLE True, STEP_HOST_RINGS (host_writes 112),
             out_cycle, out_cycle])
          (PC_SPIN, demo_active 2))
     = Some 0
   \<and> map_option (src_ratio \<circ> p2o_data \<circ> snd)
       (engine_steps demo_consts
          (boot_steps @ [STEP_SET_P2O_AUDIO_ENABLE True, STEP_HOST_RINGS (host_writes 112),
             out_cycle, out_cycle])
          (PC_SPIN, demo_active 2))
     = Some (DOUBLE_DIV 14 0)"
proof -
  have "56 * 2 \<le> (112::nat)" "(112::nat) \<le> 4096"
    by simp_all
  from demo_caught_up [OF this] have S: "\<exists>e. engine_steps demo_consts
           (boot_steps @ [STEP_SET_P2O_AUDIO_ENABLE True, STEP_HOST_RINGS (host_writes 112),
              out_cycle])
           (PC_SPIN, demo_active 2) = Some (PC_EVENTS, e)
       \<and> io_buffers e = Some (demo_io\<lparr>p2o_audio := Some (0, 4096)\<rparr>)
       \<and> reading_at_p2o_end e \<and> ow_engine_is_p2o_audio_enable e
       \<and> p2o_frame_size e = 8 \<and> p2o_transfer_size e = 112
       \<and> frames_per_transfer e = 14"
    by simp
  obtain e4 where run4: "engine_steps demo_consts
          (boot_steps @ [STEP_SET_P2O_AUDIO_ENABLE True, STEP_HOST_RINGS (host_writes 112),
             out_cycle])
          (PC_SPIN, demo_active 2) = Some (PC_EVENTS, e4)"
    and io: "io_buffers e4 = Some (demo_io\<lparr>p2o_audio := Some (0, 4096)\<rparr>)"
    and ph: "reading_at_p2o_end e4" and en: "ow_engine_is_p2o_audio_enable e4"
    and sz: "p2o_frame_size e4 = 8" "p2o_transfer_size e4 = 112" "frames_per_transfer e4 = 14"
    using S by blast
  have m: "read_space (demo_io\<lparr>p2o_audio := Some (0, 4096)\<rparr>) = Some fst"
    "read (demo_io\<lparr>p2o_audio := Some (0, 4096)\<rparr>) = Some demo_read"
    "p2o_audio (demo_io\<lparr>p2o_audio := Some (0, 4096)\<rparr>) = Some (0, 4096)"
    by (simp_all add: demo_io_def)
  have fs: "0 < p2o_frame_size e4" using sz by simp
  have un: "fst (0::nat, 4096::nat) < p2o_transfer_size e4" using sz by simp
  from underflow_step [OF io m fs ph en un, of demo_consts]
  obtain e5 where 1: "set_usb_output_data_blks demo_consts e4 = Some e5"
    and 2: "input_frames (p2o_data e5) = 0"
    and 3: "src_ratio (p2o_data e5) = DOUBLE_DIV 14 0"
    using sz by auto
  from 1 have "engine_steps demo_consts [out_cycle] (PC_EVENTS, e4) =
      Some (PC_EVENTS, e5\<lparr>submitted := submitted e5 @ [XFR_OUT]\<rparr>)"
    by (simp add: out_cycle_step)
  with run4 have run5: "engine_steps demo_consts
          ((boot_steps @ [STEP_SET_P2O_AUDIO_ENABLE True, STEP_HOST_RINGS (host_writes 112),
             out_cycle]) @ [out_cycle])
          (PC_SPIN, demo_active 2) =
      Some (PC_EVENTS, e5\<lparr>submitted := submitted e5 @ [XFR_OUT]\<rparr>)"
    by (simp only: engine_steps_append option.case)
  show ?thesis
    using run4 run5 io ph en sz 2 3 by simp
qed

subsection \<open>Incoming audio and the ring\<close>

text \<open>
  C4. When an audio-in transfer completes, \<^verbatim>\<open>set_usb_input_data_blks\<close> decodes the
  blocks into \<^verbatim>\<open>o2p_transfer_buf\<close> and then: with the status below \<^verbatim>\<open>RUN\<close> it leaves
  the rings as they are; with the status at least \<^verbatim>\<open>RUN\<close> and a write space of at least
  \<^verbatim>\<open>o2p_transfer_size\<close> it calls \<^verbatim>\<open>write\<close> once, on \<^verbatim>\<open>o2p_audio\<close>, with the decoded
  buffer and \<^verbatim>\<open>o2p_transfer_size\<close> bytes; with less write space it leaves the rings as
  they are and reports the overflow. Nothing else is reported.
\<close>

theorem o2p_audio_write:
  assumes io: "io_buffers e = Some io" "write_space io = Some ws" "write_fn io = Some wr"
      "o2p_audio io = Some ring"
    and dll: "dll_ow e = None \<or> get_time io \<noteq> None"
  shows "\<exists>e'. set_usb_input_data_blks ps e = Some e'
     \<and> o2p_transfer_buf e' =
         fst (fold (\<lambda>i (buf, f).
                let (buf, f, s) =
                      get_blk_data ps (outputs (device_desc e)) (usb_data_in e)
                        (buf, f, get_nth_usb_in_blk e i + blk_data ps)
                in (buf, f))
              [0..<blocks_per_transfer e] (o2p_transfer_buf e, 0))
     \<and> (io_buffers e', errors e') =
         (if status e < OW_STATUS_RUN then (Some io, errors e)
          else if o2p_transfer_size e \<le> ws ring
          then (Some (io\<lparr>o2p_audio :=
                        Some (wr ring (SRC_FLOATS (o2p_transfer_buf e')) (o2p_transfer_size e))\<rparr>),
                errors e)
          else (Some io,
                errors e @ [''o2j: Audio ring buffer overflow. Discarding data...'']))"
proof (cases "dll_ow e")
  case None
  with io show ?thesis
    by (simp add: set_usb_input_data_blks_def Let_def error_print_def get_nth_usb_in_blk_def)
next
  case (Some calls)
  with dll obtain gt where "get_time io = Some gt" by auto
  with io Some show ?thesis
    by (simp add: set_usb_input_data_blks_def Let_def error_print_def get_nth_usb_in_blk_def)
qed

theorem o2p_audio_write_witness:
  "map_option (map_option o2p_audio \<circ> io_buffers)
     (set_usb_input_data_blks demo_consts
        (blank_engine\<lparr>status := OW_STATUS_WAIT, o2p_transfer_size := 224,
           io_buffers := Some demo_io\<rparr>))
     = Some (Some (Some (0, 4096)))
   \<and> map_option (map_option o2p_audio \<circ> io_buffers)
     (set_usb_input_data_blks demo_consts
        (blank_engine\<lparr>status := OW_STATUS_RUN, o2p_transfer_size := 224,
           io_buffers := Some demo_io\<rparr>))
     = Some (Some (Some (224, 4096)))
   \<and> map_option (map_option o2p_audio \<circ> io_buffers)
     (set_usb_input_data_blks demo_consts
        (blank_engine\<lparr>status := OW_STATUS_RUN, o2p_transfer_size := 224,
           io_buffers := Some (demo_io\<lparr>o2p_audio := Some (4000, 4096)\<rparr>)\<rparr>))
     = Some (Some (Some (4000, 4096)))
   \<and> map_option errors
     (set_usb_input_data_blks demo_consts
        (blank_engine\<lparr>status := OW_STATUS_RUN, o2p_transfer_size := 224,
           io_buffers := Some (demo_io\<lparr>o2p_audio := Some (4000, 4096)\<rparr>)\<rparr>))
     = Some [''o2j: Audio ring buffer overflow. Discarding data...'']"
proof -
  have d: "dll_ow (blank_engine\<lparr>status := st, o2p_transfer_size := 224,
           io_buffers := x\<rparr>) = None \<or> get_time y \<noteq> None"
    for st and x :: "demo_ring ow_io_buffers option" and y :: "demo_ring ow_io_buffers"
    by (simp add: blank_engine_def)
  have er: "errors (blank_engine\<lparr>status := st, o2p_transfer_size := 224,
           io_buffers := x\<rparr>) = []"
    for st and x :: "demo_ring ow_io_buffers option"
    by (simp add: blank_engine_def)
  have m: "write_space demo_io = Some (\<lambda>r. snd r - fst r)" "write_fn demo_io = Some demo_write"
    "o2p_audio demo_io = Some (0, 4096)"
    "write_space (demo_io\<lparr>o2p_audio := Some (4000, 4096)\<rparr>) = Some (\<lambda>r. snd r - fst r)"
    "write_fn (demo_io\<lparr>o2p_audio := Some (4000, 4096)\<rparr>) = Some demo_write"
    "o2p_audio (demo_io\<lparr>o2p_audio := Some (4000, 4096)\<rparr>) = Some (4000, 4096)"
    by (simp_all add: demo_io_def)
  have i: "io_buffers (blank_engine\<lparr>status := st, o2p_transfer_size := 224,
           io_buffers := Some x\<rparr>) = Some x"
    for st and x :: "demo_ring ow_io_buffers"
    by simp
  from o2p_audio_write [OF i m(1,2,3) d, of demo_consts OW_STATUS_WAIT]
  have 1: "map_option (map_option o2p_audio \<circ> io_buffers)
     (set_usb_input_data_blks demo_consts
        (blank_engine\<lparr>status := OW_STATUS_WAIT, o2p_transfer_size := 224,
           io_buffers := Some demo_io\<rparr>))
     = Some (Some (Some (0, 4096)))"
    by (auto simp: less_ow_engine_status_t_def m)
  from o2p_audio_write [OF i m(1,2,3) d, of demo_consts OW_STATUS_RUN]
  have 2: "map_option (map_option o2p_audio \<circ> io_buffers)
     (set_usb_input_data_blks demo_consts
        (blank_engine\<lparr>status := OW_STATUS_RUN, o2p_transfer_size := 224,
           io_buffers := Some demo_io\<rparr>))
     = Some (Some (Some (224, 4096)))"
    by (auto simp: less_ow_engine_status_t_def demo_write_def)
  from o2p_audio_write [OF i m(4,5,6) d, of demo_consts OW_STATUS_RUN]
  have 3: "map_option (map_option o2p_audio \<circ> io_buffers)
     (set_usb_input_data_blks demo_consts
        (blank_engine\<lparr>status := OW_STATUS_RUN, o2p_transfer_size := 224,
           io_buffers := Some (demo_io\<lparr>o2p_audio := Some (4000, 4096)\<rparr>)\<rparr>))
     = Some (Some (Some (4000, 4096)))"
    and 4: "map_option errors
     (set_usb_input_data_blks demo_consts
        (blank_engine\<lparr>status := OW_STATUS_RUN, o2p_transfer_size := 224,
           io_buffers := Some (demo_io\<lparr>o2p_audio := Some (4000, 4096)\<rparr>)\<rparr>))
     = Some [''o2j: Audio ring buffer overflow. Discarding data...'']"
    by (auto simp: less_ow_engine_status_t_def m er)
  from 1 2 3 4 show ?thesis by simp
qed

subsection \<open>The samples of an outgoing transfer\<close>

lemma samples_content:
  assumes "fold (\<lambda>k. set_sample ps buf) xs (mem, f, s) = (mem', f', s')"
    and "s + 4 * length xs \<le> length mem"
  shows "\<forall>q<length xs. bytes_at mem' (s + 4 * q) 4 = htobe32 (float_to_sample ps (buf ! (f + q)))"
  using assms
proof (induction xs arbitrary: mem f s)
  case Nil
  then show ?case by simp
next
  case (Cons x xs)
  define v where "v = htobe32 (float_to_sample ps (buf ! f))"
  define m1 where "m1 = store mem s v"
  from Cons.prems(1) have rest: "fold (\<lambda>k. set_sample ps buf) xs (m1, Suc f, s + 4)
      = (mem', f', s')"
    by (simp add: set_sample_def v_def m1_def)
  have len: "s + 4 + 4 * length xs \<le> length m1"
    using Cons.prems(2) by (simp add: m1_def)
  note IH = Cons.IH [OF rest len]
  from samples_sweep [OF rest]
  have un: "unchanged_outside m1 mem' (s + 4) (s + 4 + 4 * length xs)"
    by simp
  have first: "bytes_at mem' s 4 = v"
  proof -
    have "bytes_at mem' s 4 = bytes_at m1 s 4"
      by (rule bytes_at_eqI) (rule unchanged_outside_nth [OF un], simp)
    also have "\<dots> = v"
      unfolding m1_def using Cons.prems(2) by (intro bytes_at_store) (simp_all add: v_def)
    finally show ?thesis .
  qed
  show ?case
  proof (intro allI impI)
    fix q assume q: "q < length (x # xs)"
    show "bytes_at mem' (s + 4 * q) 4 = htobe32 (float_to_sample ps (buf ! (f + q)))"
    proof (cases q)
      case 0
      then show ?thesis using first by (simp add: v_def)
    next
      case (Suc q')
      with q have "q' < length xs" by simp
      with IH have "bytes_at mem' (s + 4 + 4 * q') 4
          = htobe32 (float_to_sample ps (buf ! (Suc f + q')))"
        by blast
      then show ?thesis using Suc by (simp add: ac_simps)
    qed
  qed
qed

lemma set_blk_data_content_aux:
  assumes "fold (\<lambda>j. fold (\<lambda>k. set_sample ps buf) [0..<ch]) ys (mem, f, s) = (mem', f', s')"
    and "s + 4 * (length ys * ch) \<le> length mem"
  shows "\<forall>q<length ys * ch.
           bytes_at mem' (s + 4 * q) 4 = htobe32 (float_to_sample ps (buf ! (f + q)))"
  using assms
proof (induction ys arbitrary: mem f s)
  case Nil
  then show ?case by simp
next
  case (Cons y ys)
  obtain m1 f1 s1 where 1: "fold (\<lambda>k. set_sample ps buf) [0..<ch] (mem, f, s) = (m1, f1, s1)"
    using prod_cases3 by blast
  from samples_sweep [OF 1] have 2: "f1 = f + ch" "s1 = s + 4 * ch"
    and u1: "unchanged_outside mem m1 s (s + 4 * ch)"
    by simp_all
  have len0: "s + 4 * length [0..<ch] \<le> length mem"
    using Cons.prems(2) by (simp add: add_mult_distrib2)
  from samples_content [OF 1 len0]
  have row: "\<And>q. q < ch \<Longrightarrow> bytes_at m1 (s + 4 * q) 4 = htobe32 (float_to_sample ps (buf ! (f + q)))"
    by simp
  from Cons.prems(1) 1 have rest: "fold (\<lambda>j. fold (\<lambda>k. set_sample ps buf) [0..<ch]) ys
      (m1, f1, s1) = (mem', f', s')"
    by simp
  have len1: "s1 + 4 * (length ys * ch) \<le> length m1"
    using Cons.prems(2) unchanged_outside_length [OF u1] 2 by (simp add: add_mult_distrib2)
  note IH = Cons.IH [OF rest len1]
  from set_blk_data_sweep_aux [OF rest]
  have un: "unchanged_outside m1 mem' s1 (s1 + 4 * (length ys * ch))"
    by simp
  show ?case
  proof (intro allI impI)
    fix q assume q: "q < length (y # ys) * ch"
    show "bytes_at mem' (s + 4 * q) 4 = htobe32 (float_to_sample ps (buf ! (f + q)))"
    proof (cases "q < ch")
      case True
      have "bytes_at mem' (s + 4 * q) 4 = bytes_at m1 (s + 4 * q) 4"
      proof (rule bytes_at_eqI)
        fix i :: nat assume "i < 4"
        with True have "s + 4 * q + i < s1" unfolding 2 by simp
        then show "mem' ! (s + 4 * q + i) = m1 ! (s + 4 * q + i)"
          by (intro unchanged_outside_nth [OF un]) simp
      qed
      with row [OF True] show ?thesis by simp
    next
      case False
      define q' where "q' = q - ch"
      from False q have q': "q = ch + q'" "q' < length ys * ch"
        by (simp_all add: q'_def)
      from IH q'(2) have "bytes_at mem' (s1 + 4 * q') 4
          = htobe32 (float_to_sample ps (buf ! (f1 + q')))"
        by blast
      then show ?thesis
        unfolding 2 q'(1) by (simp add: ac_simps add_mult_distrib2)
    qed
  qed
qed

lemma set_blk_data_content:
  assumes "set_blk_data ps ch buf (mem, f, s) = (mem', f', s')"
    and "s + 4 * (OB_FRAMES_PER_BLOCK ps * ch) \<le> length mem"
    and "q < OB_FRAMES_PER_BLOCK ps * ch"
  shows "bytes_at mem' (s + 4 * q) 4 = htobe32 (float_to_sample ps (buf ! (f + q)))"
  using set_blk_data_content_aux [of ps buf ch "[0..<OB_FRAMES_PER_BLOCK ps]" mem f s mem' f' s']
    assms
  by (simp add: set_blk_data_def)

lemma set_block_content:
  assumes "set_block ps i (e, f) = (e', f')"
    and "get_nth_usb_out_blk e i + blk_data ps
           + 4 * (OB_FRAMES_PER_BLOCK ps * inputs (device_desc e)) \<le> length (usb_data_out e)"
    and "q < OB_FRAMES_PER_BLOCK ps * inputs (device_desc e)"
  shows "bytes_at (usb_data_out e') (get_nth_usb_out_blk e i + blk_data ps + 4 * q) 4
           = htobe32 (float_to_sample ps (p2o_transfer_buf e ! (f + q)))"
proof -
  define b where "b = get_nth_usb_out_blk e i"
  define fr where "fr = frames e + of_nat (OB_FRAMES_PER_BLOCK ps)"
  define m1 where "m1 = store (usb_data_out e) (b + blk_frames) (htobe16 fr)"
  obtain m2 f2 s2 where sweep: "set_blk_data ps (inputs (device_desc e)) (p2o_transfer_buf e)
      (m1, f, b + blk_data ps) = (m2, f2, s2)"
    using prod_cases3 by blast
  from assms(1) sweep have e': "e' = e\<lparr>frames := fr, usb_data_out := m2\<rparr>"
    by (simp_all add: set_block_def Let_def b_def fr_def m1_def get_nth_usb_out_blk_def)
  have len: "b + blk_data ps + 4 * (OB_FRAMES_PER_BLOCK ps * inputs (device_desc e)) \<le> length m1"
    using assms(2) by (simp add: m1_def b_def)
  from set_blk_data_content [OF sweep len assms(3)] show ?thesis
    unfolding b_def [symmetric] using e' by simp
qed

lemma set_blocks_fold_content:
  assumes L: "usb_data_out_blk_len e = blk_data ps + 4 * (OB_FRAMES_PER_BLOCK ps * inputs (device_desc e))"
    and len: "m * usb_data_out_blk_len e \<le> length (usb_data_out e)"
    and run: "fold (set_block ps) [0..<m] (e, f) = (e', f')"
  shows "f' = f + m * (OB_FRAMES_PER_BLOCK ps * inputs (device_desc e))
         \<and> (\<forall>k<m. \<forall>q<OB_FRAMES_PER_BLOCK ps * inputs (device_desc e).
               bytes_at (usb_data_out e') (k * usb_data_out_blk_len e + blk_data ps + 4 * q) 4
                 = htobe32 (float_to_sample ps
                     (p2o_transfer_buf e ! (f + k * (OB_FRAMES_PER_BLOCK ps * inputs (device_desc e)) + q))))"
  using len run
proof (induction m arbitrary: e' f')
  case 0
  then show ?case by simp
next
  case (Suc m)
  define Ln where "Ln = usb_data_out_blk_len e"
  define H where "H = blk_data ps"
  define n where "n = OB_FRAMES_PER_BLOCK ps * inputs (device_desc e)"
  have LH: "Ln = H + 4 * n" using L by (simp add: Ln_def H_def n_def)
  obtain e1 f1 where 1: "fold (set_block ps) [0..<m] (e, f) = (e1, f1)"
    by (cases "fold (set_block ps) [0..<m] (e, f)")
  from Suc.prems(1) have len_m: "m * usb_data_out_blk_len e \<le> length (usb_data_out e)"
    and len_Sm: "m * Ln + Ln \<le> length (usb_data_out e)"
    by (simp_all add: Ln_def add.commute)
  from Suc.IH [OF len_m 1] have f1: "f1 = f + m * n"
    and old: "\<And>k q. k < m \<Longrightarrow> q < n \<Longrightarrow>
               bytes_at (usb_data_out e1) (k * Ln + H + 4 * q) 4
                 = htobe32 (float_to_sample ps (p2o_transfer_buf e ! (f + k * n + q)))"
    unfolding Ln_def H_def n_def by blast+
  from set_blocks_fold [OF L len_m 1]
  have e1: "e1 = e\<lparr>frames := frames e + of_nat (m * OB_FRAMES_PER_BLOCK ps),
                 usb_data_out := usb_data_out e1\<rparr>"
    and len1: "length (usb_data_out e1) = length (usb_data_out e)"
    by blast+
  have L1: "usb_data_out_blk_len e1 = Ln" and d1: "device_desc e1 = device_desc e"
    and b1: "p2o_transfer_buf e1 = p2o_transfer_buf e"
    by (subst e1, simp add: Ln_def)+
  have blk1: "get_nth_usb_out_blk e1 m = m * Ln"
    by (simp add: get_nth_usb_out_blk_def L1)
  from Suc.prems(2) 1 have 2: "set_block ps m (e1, f1) = (e', f')"
    by simp
  note eff = set_block_effect [OF 2, unfolded blk1 d1]
  have f': "f' = f + Suc m * n"
    using eff(5) f1 by (simp add: n_def)
  have step: "unchanged_outside (usb_data_out e1) (usb_data_out e') (m * Ln + 2) (m * Ln + Ln)"
    using eff(2) by (simp add: blk_frames_def LH H_def n_def add.assoc)
  have fit: "get_nth_usb_out_blk e1 m + blk_data ps
           + 4 * (OB_FRAMES_PER_BLOCK ps * inputs (device_desc e1)) \<le> length (usb_data_out e1)"
    using len_Sm len1 LH by (simp add: blk1 d1 H_def n_def add.assoc)
  have new: "bytes_at (usb_data_out e') (m * Ln + H + 4 * q) 4
      = htobe32 (float_to_sample ps (p2o_transfer_buf e ! (f + m * n + q)))" if "q < n" for q
  proof -
    from that have "q < OB_FRAMES_PER_BLOCK ps * inputs (device_desc e1)"
      by (simp add: n_def d1)
    from set_block_content [OF 2 fit this] show ?thesis
      by (simp add: blk1 b1 f1 H_def)
  qed
  have all: "bytes_at (usb_data_out e') (k * Ln + H + 4 * q) 4
      = htobe32 (float_to_sample ps (p2o_transfer_buf e ! (f + k * n + q)))"
    if "k < Suc m" "q < n" for k q
  proof (cases "k < m")
    case True
    have "bytes_at (usb_data_out e') (k * Ln + H + 4 * q) 4
        = bytes_at (usb_data_out e1) (k * Ln + H + 4 * q) 4"
    proof (rule bytes_at_eqI)
      fix i :: nat assume "i < 4"
      with that(2) LH have "H + 4 * q + i < Ln" by simp
      from block_index_less [OF True this]
      have "k * Ln + H + 4 * q + i < m * Ln + 2" by (simp add: add.assoc)
      then show "usb_data_out e' ! (k * Ln + H + 4 * q + i)
          = usb_data_out e1 ! (k * Ln + H + 4 * q + i)"
        by (intro unchanged_outside_nth [OF step]) simp
    qed
    with old [OF True that(2)] show ?thesis by simp
  next
    case False
    with that(1) have "k = m" by simp
    with new [OF that(2)] show ?thesis by simp
  qed
  show ?case
    using f' all unfolding Ln_def H_def n_def by blast
qed

lemma set_blocks_content:
  assumes lay: "out_layout ps e"
    and k: "k < blocks_per_transfer e"
    and q: "q < OB_FRAMES_PER_BLOCK ps * inputs (device_desc e)"
  shows "out_blk_sample ps k q (set_blocks ps e)
           = htobe32 (float_to_sample ps
               (p2o_transfer_buf e ! (k * (OB_FRAMES_PER_BLOCK ps * inputs (device_desc e)) + q)))"
proof -
  from lay have L: "usb_data_out_blk_len e
        = blk_data ps + 4 * (OB_FRAMES_PER_BLOCK ps * inputs (device_desc e))"
    and len: "blocks_per_transfer e * usb_data_out_blk_len e \<le> length (usb_data_out e)"
    by (simp_all add: out_layout_def)
  obtain e' f' where run: "fold (set_block ps) [0..<blocks_per_transfer e] (e, 0) = (e', f')"
    by (cases "fold (set_block ps) [0..<blocks_per_transfer e] (e, 0)")
  then have sb: "set_blocks ps e = e'"
    by (simp add: set_blocks_def)
  obtain fr mem where "set_blocks ps e = e\<lparr>frames := fr, usb_data_out := mem\<rparr>"
    using set_blocks_shape by blast
  then have "usb_data_out_blk_len (set_blocks ps e) = usb_data_out_blk_len e"
    by simp
  then have blk: "get_nth_usb_out_blk (set_blocks ps e) k = k * usb_data_out_blk_len e"
    by (simp add: get_nth_usb_out_blk_def)
  from set_blocks_fold_content [OF L len run] k q
  have "bytes_at (usb_data_out e') (k * usb_data_out_blk_len e + blk_data ps + 4 * q) 4
      = htobe32 (float_to_sample ps
          (p2o_transfer_buf e ! (0 + k * (OB_FRAMES_PER_BLOCK ps * inputs (device_desc e)) + q)))"
    by blast
  then show ?thesis
    unfolding out_blk_sample_def sb using blk [unfolded sb] by simp
qed

subsection \<open>The first phase of the outgoing audio\<close>

lemma desc_engine_step:
  assumes "engine_step ps s (pc, e) = Some (pc', e')"
  shows "device_desc e' = device_desc e"
proof (cases "is_out_cycle s")
  case True
  then obtain st err where s: "s = STEP_CALLBACK (COMPLETE_OUT st err)"
    by (cases s rule: is_out_cycle.cases) simp_all
  define e0 where "e0 = (if st \<noteq> LIBUSB_TRANSFER_COMPLETED
       then error_print ''j2o: Error on USB audio transfer'' e else e)"
  from assms s have "cb_xfr_out ps e st err = Some e'"
    by (cases "pc = PC_EVENTS") auto
  then obtain e1 where 1: "set_usb_output_data_blks ps e0 = Some e1"
    and 2: "e' = prepare_cycle_out e1 err"
    unfolding cb_xfr_out_def Let_def e0_def [symmetric]
    by (cases "set_usb_output_data_blks ps e0") simp_all
  from set_usb_output_data_blks_set_blocks [OF 1]
  obtain e2 where 3: "e1 = set_blocks ps e2" and 4: "out_view e2 = out_view e0"
    by blast
  obtain fr mem where 5: "set_blocks ps e2 = e2\<lparr>frames := fr, usb_data_out := mem\<rparr>"
    using set_blocks_shape by blast
  have "device_desc e1 = device_desc e2"
    unfolding 3 5 by simp
  also have "\<dots> = device_desc e0"
    using 4 by (simp add: out_view_def)
  also have "\<dots> = device_desc e"
    by (simp add: e0_def error_print_def)
  finally have "device_desc e1 = device_desc e" .
  moreover have "out_view e' = out_view e1"
    unfolding 2 by simp
  ultimately show ?thesis by (simp add: out_view_def)
next
  case False
  from out_view_engine_step [OF assms False] show ?thesis
    by (simp add: out_view_def)
qed

lemma desc_engine_steps:
  assumes "engine_steps ps steps (pc, e) = Some (pc', e')"
  shows "device_desc e' = device_desc e"
  using assms
proof (induction steps arbitrary: pc e)
  case Nil
  then show ?case by simp
next
  case (Cons s steps)
  from Cons.prems obtain pc1 e1 where 1: "engine_step ps s (pc, e) = Some (pc1, e1)"
    and 2: "engine_steps ps steps (pc1, e1) = Some (pc', e')"
    by (cases "engine_step ps s (pc, e)") auto
  from Cons.IH [OF 2] desc_engine_step [OF 1] show ?case by simp
qed

lemma tsize_out_cycle:
  assumes "set_usb_output_data_blks ps e = Some e'"
  shows "p2o_transfer_size e' = p2o_transfer_size e"
  using assms
  by (auto simp: set_usb_output_data_blks_def Let_def
      split: if_splits prod.splits Option.bind_splits dest!: p2o_phase_inv_underflow)

lemma tsize_view: "p2o_view e' = p2o_view e \<Longrightarrow> p2o_transfer_size e' = p2o_transfer_size e"
  by (simp add: p2o_view_def)

lemma tsize_thread:
  assumes "run_audio_o2p_midi ps err (pc, e) = Some (pc', e')"
  shows "p2o_transfer_size e' = p2o_transfer_size e"
proof (cases pc)
  case PC_TOP
  with assms show ?thesis
    by (auto simp: thread_top_def Let_def split: option.splits Option.bind_splits)
next
  case PC_DRAIN
  with assms show ?thesis
    by (auto simp: thread_drain_def Let_def split: Option.bind_splits)
next
  case PC_SPIN
  with assms show ?thesis by (auto split: if_splits)
next
  case PC_PREPARE_IN
  with assms have "p2o_view e' = p2o_view e" by auto
  then show ?thesis by (rule tsize_view)
next
  case PC_PREPARE_OUT
  with assms have "p2o_view e' = p2o_view e" by auto
  then show ?thesis by (rule tsize_view)
next
  case PC_PREPARE_IN_MIDI
  with assms have "p2o_view e' = p2o_view e" by auto
  then show ?thesis by (rule tsize_view)
next
  case PC_LOOP
  with assms show ?thesis by (auto split: if_splits)
next
  case PC_EVENTS
  with assms show ?thesis by auto
next
  case PC_CHECK
  with assms show ?thesis by (auto split: if_splits)
next
  case PC_REARM
  with assms show ?thesis by (auto simp: ow_engine_set_status_def)
next
  case PC_RETURN
  with assms show ?thesis by auto
qed

lemma tsize_usb_callback:
  assumes "usb_callback ps ev e = Some e'"
  shows "p2o_transfer_size e' = p2o_transfer_size e"
proof (cases ev)
  case (COMPLETE_IN st rx err)
  with assms have "cb_xfr_in ps (e\<lparr>usb_data_in := store (usb_data_in e) 0 rx\<rparr>) st err = Some e'"
    by simp
  from p2o_view_cb_xfr_in [OF this] show ?thesis
    by (simp add: p2o_view_def)
next
  case (COMPLETE_OUT st err)
  define e0 where "e0 = (if st \<noteq> LIBUSB_TRANSFER_COMPLETED
       then error_print ''j2o: Error on USB audio transfer'' e else e)"
  from assms COMPLETE_OUT
  have "set_usb_output_data_blks ps e0 \<bind> (\<lambda>x. Some (prepare_cycle_out x err)) = Some e'"
    by (simp add: cb_xfr_out_def Let_def e0_def)
  then obtain e1 where 1: "set_usb_output_data_blks ps e0 = Some e1"
    and 2: "e' = prepare_cycle_out e1 err"
    by (cases "set_usb_output_data_blks ps e0") auto
  have "p2o_view e' = p2o_view e1"
    unfolding 2 by simp
  then have "p2o_transfer_size e' = p2o_transfer_size e1" by (rule tsize_view)
  with tsize_out_cycle [OF 1] show ?thesis
    by (simp add: e0_def error_print_def)
next
  case (COMPLETE_IN_MIDI st al rx err)
  with assms have "cb_xfr_in_midi ps (e\<lparr>o2p_midi_data := store (o2p_midi_data e) 0 rx\<rparr>)
      st al err = Some e'"
    by simp
  from p2o_view_cb_xfr_in_midi [OF this] show ?thesis
    by (simp add: p2o_view_def)
next
  case (COMPLETE_OUT_MIDI st)
  with assms have "e' = cb_xfr_out_midi e st"
    by simp
  then have "p2o_view e' = p2o_view e" by simp
  then show ?thesis by (rule tsize_view)
qed

lemma tsize_engine_step:
  assumes "engine_step ps s (pc, e) = Some (pc', e')"
  shows "p2o_transfer_size e' = p2o_transfer_size e"
proof (cases s)
  case (STEP_THREAD err)
  with assms have "run_audio_o2p_midi ps err (pc, e) = Some (pc', e')"
    by simp
  then show ?thesis by (rule tsize_thread)
next
  case (STEP_CALLBACK ev)
  with assms have "usb_callback ps ev e = Some e'"
    by (cases "pc = PC_EVENTS"; auto)
  then show ?thesis by (rule tsize_usb_callback)
next
  case STEP_STOP
  with assms show ?thesis
    by (auto simp: ow_engine_stop_def ow_engine_set_status_def)
next
  case (STEP_P2O_MIDI_SUBMIT err)
  with assms have "e' = prepare_cycle_out_midi (e\<lparr>p2o_midi_ready := False\<rparr>) err"
    by simp
  then have "p2o_view e' = p2o_view (e\<lparr>p2o_midi_ready := False\<rparr>)" by simp
  then show ?thesis by (simp add: p2o_view_def)
next
  case (STEP_SET_STATUS st)
  with assms show ?thesis
    by (auto simp: ow_engine_set_status_def)
next
  case (STEP_SET_P2O_AUDIO_ENABLE b)
  with assms show ?thesis
    by (auto simp: ow_engine_set_p2o_audio_enable_def)
next
  case (STEP_HOST_RINGS h)
  with assms show ?thesis by auto
qed

lemma tsize_engine_steps:
  assumes "engine_steps ps steps (pc, e) = Some (pc', e')"
  shows "p2o_transfer_size e' = p2o_transfer_size e"
  using assms
proof (induction steps arbitrary: pc e)
  case Nil
  then show ?case by simp
next
  case (Cons s steps)
  from Cons.prems obtain pc1 e1 where 1: "engine_step ps s (pc, e) = Some (pc1, e1)"
    and 2: "engine_steps ps steps (pc1, e1) = Some (pc', e')"
    by (cases "engine_step ps s (pc, e)") auto
  from Cons.IH [OF 2] tsize_engine_step [OF 1] show ?case by simp
qed

text \<open>The transfer buffer holds one float for every sample of a transfer.\<close>

lemma p2o_transfer_buf_length:
  assumes init: "ow_engine_init ps ret desc n m0 = (r, Some e0)"
    and act: "ow_engine_activate_with_dll mt at e0 io dll = (OW_OK, e1)"
    and run: "engine_steps ps steps (pc0, e1) = Some (pc, e)"
  shows "length (p2o_transfer_buf e) = n * (OB_FRAMES_PER_BLOCK ps * inputs desc)"
    and "device_desc e = desc"
proof -
  obtain mem where sh: "init_headers (init_usb_buffers ps desc n m0)
      = (init_usb_buffers ps desc n m0)\<lparr>usb_data_out := mem\<rparr>"
    using init_headers_shape by blast
  from init have "e0 = init_transfer_buffers (init_headers (init_usb_buffers ps desc n m0))"
    by (auto simp: ow_engine_init_def split: if_splits)
  then have t0: "p2o_transfer_size e0 = OB_FRAMES_PER_BLOCK ps * n * (4 * inputs desc)"
    and d0: "device_desc e0 = desc"
    unfolding sh
    by (simp_all add: init_transfer_buffers_def init_usb_buffers_def Let_def
        OB_BYTES_PER_SAMPLE_def)
  from act have t1: "p2o_transfer_size e1 = p2o_transfer_size e0"
    and d1: "device_desc e1 = device_desc e0"
    by (auto simp: ow_engine_activate_with_dll_def activate_threads_def Let_def
        split: if_splits)
  from p2o_phase_inv_engine_steps [OF p2o_phase_inv_init [OF init act] run]
  have "p2o_transfer_size e div 4 = length (p2o_transfer_buf e)"
    by (simp add: p2o_phase_inv_def)
  moreover have "p2o_transfer_size e = OB_FRAMES_PER_BLOCK ps * n * (4 * inputs desc)"
    using tsize_engine_steps [OF run] t1 t0 by simp
  moreover have "OB_FRAMES_PER_BLOCK ps * n * (4 * inputs desc) div 4
      = n * (OB_FRAMES_PER_BLOCK ps * inputs desc)"
    by simp
  ultimately show "length (p2o_transfer_buf e) = n * (OB_FRAMES_PER_BLOCK ps * inputs desc)"
    by simp
  show "device_desc e = desc"
    using desc_engine_steps [OF run] d1 d0 by simp
qed

text \<open>The example engine with the ring of 8 GiB.\<close>

lemma big_activate:
  "ow_engine_activate_with_dll True True (demo_engine n) big_io None = (OW_OK, big_active n)"
proof -
  have "fst (ow_engine_activate_with_dll True True (demo_engine n) big_io None) = OW_OK"
    by (simp add: ow_engine_activate_with_dll_def activate_threads_def big_io_def demo_io_def
        Let_def)
  then show ?thesis
    by (simp add: big_active_def ow_engine_activate_def prod_eq_iff)
qed

lemma big_active_sel:
  "p2o_frame_size (big_active n) = 8"
  "p2o_transfer_size (big_active n) = 56 * n"
  "frames_per_transfer (big_active n) = 7 * n"
  "\<not> p2o_audio_enabled (big_active n)"
  "io_buffers (big_active n) = Some big_io"
  "dll_ow (big_active n) = None"
  using activate_stores_arguments [of True True "demo_engine n" big_io None]
  by (simp_all add: big_active_def ow_engine_activate_def p2o_frame_size_activate
      p2o_frame_size_demo_engine demo_engine_sel ow_engine_activate_with_dll_def
      activate_threads_def Let_def big_io_def demo_io_def)

lemma big_fed:
  assumes "b \<le> 8589934592"
  shows "\<exists>e. engine_steps demo_consts
           (boot_steps @ [STEP_SET_P2O_AUDIO_ENABLE True, STEP_HOST_RINGS (host_writes b)])
           (PC_SPIN, big_active n) = Some (PC_EVENTS, e)
       \<and> io_buffers e = Some (big_io\<lparr>p2o_audio := Some (b, 8589934592)\<rparr>)
       \<and> \<not> reading_at_p2o_end e \<and> ow_engine_is_p2o_audio_enable e
       \<and> p2o_frame_size e = 8 \<and> p2o_transfer_size e = 56 * n
       \<and> frames_per_transfer e = 7 * n"
proof -
  define e2 where "e2 = (big_active n)\<lparr>status := OW_STATUS_WAIT, p2o_latency := 0,
              p2o_max_latency := 0, reading_at_p2o_end := False,
              submitted := submitted (big_active n) @ [XFR_IN, XFR_OUT]
                @ (if midi (big_active n) then [XFR_IN_MIDI] else [])\<rparr>"
  have 1: "engine_steps demo_consts boot_steps (PC_SPIN, big_active n) = Some (PC_EVENTS, e2)"
    unfolding e2_def by (rule boot_steps_run) (rule big_active_sel)
  define e3 where "e3 = e2\<lparr>p2o_audio_enabled := True,
      io_buffers := Some (big_io\<lparr>p2o_audio := Some (b, 8589934592)\<rparr>)\<rparr>"
  have "host_writes b big_io = big_io\<lparr>p2o_audio := Some (b, 8589934592)\<rparr>"
    using assms by (simp add: host_writes_def big_io_def demo_io_def demo_write_def)
  then have 2: "engine_steps demo_consts
      [STEP_SET_P2O_AUDIO_ENABLE True, STEP_HOST_RINGS (host_writes b)] (PC_EVENTS, e2)
        = Some (PC_EVENTS, e3)"
    by (simp add: e3_def e2_def ow_engine_set_p2o_audio_enable_def
        ow_engine_is_p2o_audio_enable_def big_active_sel)
  have "io_buffers e3 = Some (big_io\<lparr>p2o_audio := Some (b, 8589934592)\<rparr>)"
    "\<not> reading_at_p2o_end e3" "ow_engine_is_p2o_audio_enable e3"
    "p2o_frame_size e3 = 8" "p2o_transfer_size e3 = 56 * n" "frames_per_transfer e3 = 7 * n"
    by (simp_all add: e3_def e2_def ow_engine_is_p2o_audio_enable_def big_active_sel)
  with 1 2 show ?thesis
    by (simp add: engine_steps_append)
qed

lemma out_blk_sample_same:
  "out_blk_sample ps k q (e\<lparr>io_buffers := x, reading_at_p2o_end := b, submitted := y\<rparr>)
     = out_blk_sample ps k q e"
  by (simp add: out_blk_sample_def get_nth_usb_out_blk_def)

text \<open>
  C6. On an audio-out completion with \<^verbatim>\<open>reading_at_p2o_end\<close> false, in any state the
  engine reaches after initialization and activation, with a frame size that is not zero
  and fits an \<^verbatim>\<open>int\<close>: \<^verbatim>\<open>p2o_transfer_buf\<close> is all zero. If p2o audio is enabled and
  the ring holds at least \<^verbatim>\<open>p2o_transfer_size\<close> bytes, the out-cycle makes one call of
  \<^verbatim>\<open>read\<close> with a NULL destination and sets \<^verbatim>\<open>reading_at_p2o_end\<close>; otherwise the ring
  and the flag are as before. The number of bytes it asks \<^verbatim>\<open>read\<close> to discard is what
  \<^verbatim>\<open>ow_bytes_to_frame_bytes\<close> returns for the read space taken as an \<^verbatim>\<open>int\<close>: it is
  \<open>read_space div p2o_frame_size * p2o_frame_size\<close>, a multiple of the frame size, as
  long as the read space is below \<open>2 ^ 31\<close>, and not in general above. In both cases
  every sample of every block of the outgoing buffer is encoded from the transfer buffer,
  which the cycle does not change: it is the big-endian sample of the float zero.
\<close>

theorem p2o_catch_up:
  assumes init: "ow_engine_init ps ret desc n m0 = (r, Some e0)"
    and act: "ow_engine_activate_with_dll mt at e0 io0 dll = (OW_OK, e1)"
    and run: "engine_steps ps steps (pc0, e1) = Some (pc, e)"
    and ph: "\<not> reading_at_p2o_end e"
    and io: "io_buffers e = Some io" "read_space io = Some rs" "read io = Some rd"
      "p2o_audio io = Some ring"
    and fs: "0 < p2o_frame_size e" "p2o_frame_size e < 2 ^ 31"
  shows "p2o_buf_zero e
     \<and> (\<exists>nbytes.
           map_option size_t_of_int
             (ow_bytes_to_frame_bytes (int_of_size_t (rs ring)) (int_of_size_t (p2o_frame_size e)))
             = Some nbytes
         \<and> set_usb_output_data_blks ps e =
             Some (if ow_engine_is_p2o_audio_enable e \<and> p2o_transfer_size e \<le> rs ring
                   then (set_blocks ps e)
                          \<lparr>io_buffers := Some (io\<lparr>p2o_audio :=
                             Some (fst (rd ring DST_NULL nbytes))\<rparr>),
                           reading_at_p2o_end := True\<rparr>
                   else set_blocks ps e)
         \<and> (rs ring < 2 ^ 31 \<longrightarrow>
               nbytes = rs ring div p2o_frame_size e * p2o_frame_size e
               \<and> p2o_frame_size e dvd nbytes))
     \<and> io_buffers (set_blocks ps e) = io_buffers e
     \<and> reading_at_p2o_end (set_blocks ps e) = reading_at_p2o_end e
     \<and> p2o_transfer_buf (set_blocks ps e) = p2o_transfer_buf e
     \<and> (\<forall>k<n. \<forall>q<OB_FRAMES_PER_BLOCK ps * inputs desc.
           out_blk_sample ps k q (set_blocks ps e) = htobe32 (float_to_sample ps 0))"
proof -
  from p2o_phase_inv_engine_steps [OF p2o_phase_inv_init [OF init act] run] ph
  have z: "p2o_buf_zero e"
    by (simp add: p2o_phase_inv_def)
  define nbytes where "nbytes = size_t_of_int
      (int_of_size_t (rs ring) sdiv int (p2o_frame_size e) * int (p2o_frame_size e))"
  have a: "map_option size_t_of_int
             (ow_bytes_to_frame_bytes (int_of_size_t (rs ring)) (int_of_size_t (p2o_frame_size e)))
             = Some nbytes"
    unfolding nbytes_def by (rule frame_bytes_Some [OF fs])
  have b: "set_usb_output_data_blks ps e =
             Some (if ow_engine_is_p2o_audio_enable e \<and> p2o_transfer_size e \<le> rs ring
                   then (set_blocks ps e)
                          \<lparr>io_buffers := Some (io\<lparr>p2o_audio :=
                             Some (fst (rd ring DST_NULL nbytes))\<rparr>),
                           reading_at_p2o_end := True\<rparr>
                   else set_blocks ps e)"
    unfolding nbytes_def by (rule phase_a_step_int [OF io fs ph])
  have c: "nbytes = rs ring div p2o_frame_size e * p2o_frame_size e
      \<and> p2o_frame_size e dvd nbytes" if "rs ring < 2 ^ 31"
    unfolding nbytes_def frame_bytes_small [OF that fs] by simp
  note R = run_from_init [OF init act run]
  from R(2) have lay: "out_layout ps e" by (simp add: out_inv_def)
  note B = p2o_transfer_buf_length [OF init act run]
  have d: "out_blk_sample ps k q (set_blocks ps e) = htobe32 (float_to_sample ps 0)"
    if k: "k < n" and q: "q < OB_FRAMES_PER_BLOCK ps * inputs desc" for k q
  proof -
    have "k * (OB_FRAMES_PER_BLOCK ps * inputs desc) + q
        < n * (OB_FRAMES_PER_BLOCK ps * inputs desc)"
      using k q by (rule block_index_less)
    then have i: "k * (OB_FRAMES_PER_BLOCK ps * inputs desc) + q < length (p2o_transfer_buf e)"
      by (simp add: B(1))
    from z have "p2o_transfer_buf e = replicate (length (p2o_transfer_buf e)) 0"
      by (simp add: p2o_buf_zero_def)
    then have "p2o_transfer_buf e ! (k * (OB_FRAMES_PER_BLOCK ps * inputs desc) + q)
        = replicate (length (p2o_transfer_buf e)) 0
            ! (k * (OB_FRAMES_PER_BLOCK ps * inputs desc) + q)"
      by simp
    also have "\<dots> = 0"
      using i by (rule nth_replicate)
    finally have v: "p2o_transfer_buf e ! (k * (OB_FRAMES_PER_BLOCK ps * inputs desc) + q) = 0" .
    have k': "k < blocks_per_transfer e" using k R(4) by simp
    have q': "q < OB_FRAMES_PER_BLOCK ps * inputs (device_desc e)" using q B(2) by simp
    from set_blocks_content [OF lay k' q'] show ?thesis
      unfolding B(2) v .
  qed
  from z a b c d show ?thesis
    by (simp del: of_nat_mult) blast
qed


text \<open>
  Two runs of the example engine, two blocks of seven frames of eight bytes. With 116
  bytes in the ring the cycle discards 112. With a ring of 8 GiB that holds
  \<open>2 ^ 32 = 4294967296\<close> bytes the \<^verbatim>\<open>int\<close> is zero: the cycle discards nothing, leaves
  the \<open>2 ^ 32\<close> bytes in the ring, and sets \<^verbatim>\<open>reading_at_p2o_end\<close>.
\<close>

theorem p2o_catch_up_witness:
  "ow_engine_init demo_consts OW_OK \<lparr>inputs = 2, outputs = 4\<rparr> 2 blank_engine
     = (OW_OK, Some (demo_engine 2))
   \<and> ow_engine_activate_with_dll True True (demo_engine 2) demo_io None = (OW_OK, demo_active 2)
   \<and> ow_engine_activate_with_dll True True (demo_engine 2) big_io None = (OW_OK, big_active 2)
   \<and> map_option (p2o_buf_zero \<circ> snd)
       (engine_steps demo_consts
          (boot_steps @ [STEP_SET_P2O_AUDIO_ENABLE True, STEP_HOST_RINGS (host_writes 116)])
          (PC_SPIN, demo_active 2))
     = Some True
   \<and> map_option (reading_at_p2o_end \<circ> snd)
       (engine_steps demo_consts
          (boot_steps @ [STEP_SET_P2O_AUDIO_ENABLE True, STEP_HOST_RINGS (host_writes 116)])
          (PC_SPIN, demo_active 2))
     = Some False
   \<and> map_option (map_option p2o_audio \<circ> io_buffers \<circ> snd)
       (engine_steps demo_consts
          (boot_steps @ [STEP_SET_P2O_AUDIO_ENABLE True, STEP_HOST_RINGS (host_writes 116)])
          (PC_SPIN, demo_active 2))
     = Some (Some (Some (116, 4096)))
   \<and> map_option (map_option p2o_audio \<circ> io_buffers \<circ> snd)
       (engine_steps demo_consts
          (boot_steps @ [STEP_SET_P2O_AUDIO_ENABLE True, STEP_HOST_RINGS (host_writes 116),
             out_cycle])
          (PC_SPIN, demo_active 2))
     = Some (Some (Some (4, 4096)))
   \<and> map_option (reading_at_p2o_end \<circ> snd)
       (engine_steps demo_consts
          (boot_steps @ [STEP_SET_P2O_AUDIO_ENABLE True, STEP_HOST_RINGS (host_writes 116),
             out_cycle])
          (PC_SPIN, demo_active 2))
     = Some True
   \<and> map_option (out_blk_sample demo_consts 1 13 \<circ> snd)
       (engine_steps demo_consts
          (boot_steps @ [STEP_SET_P2O_AUDIO_ENABLE True, STEP_HOST_RINGS (host_writes 116),
             out_cycle])
          (PC_SPIN, demo_active 2))
     = Some [0, 0, 0, 0]
   \<and> map_option (map_option p2o_audio \<circ> io_buffers \<circ> snd)
       (engine_steps demo_consts
          (boot_steps @ [STEP_SET_P2O_AUDIO_ENABLE True,
             STEP_HOST_RINGS (host_writes 4294967296)])
          (PC_SPIN, big_active 2))
     = Some (Some (Some (4294967296, 8589934592)))
   \<and> map_option (map_option p2o_audio \<circ> io_buffers \<circ> snd)
       (engine_steps demo_consts
          (boot_steps @ [STEP_SET_P2O_AUDIO_ENABLE True,
             STEP_HOST_RINGS (host_writes 4294967296), out_cycle])
          (PC_SPIN, big_active 2))
     = Some (Some (Some (4294967296, 8589934592)))
   \<and> map_option (reading_at_p2o_end \<circ> snd)
       (engine_steps demo_consts
          (boot_steps @ [STEP_SET_P2O_AUDIO_ENABLE True,
             STEP_HOST_RINGS (host_writes 4294967296), out_cycle])
          (PC_SPIN, big_active 2))
     = Some True"
proof -
  have "(116::nat) \<le> 4096" by simp
  from demo_fed [OF this, of 2] obtain e where
    run: "engine_steps demo_consts
           (boot_steps @ [STEP_SET_P2O_AUDIO_ENABLE True, STEP_HOST_RINGS (host_writes 116)])
           (PC_SPIN, demo_active 2) = Some (PC_EVENTS, e)"
    and io: "io_buffers e = Some (demo_io\<lparr>p2o_audio := Some (116, 4096)\<rparr>)"
    and ph: "\<not> reading_at_p2o_end e" and en: "ow_engine_is_p2o_audio_enable e"
    and sz: "p2o_frame_size e = 8" "p2o_transfer_size e = 56 * 2"
    by blast
  have m: "read_space (demo_io\<lparr>p2o_audio := Some (116, 4096)\<rparr>) = Some fst"
    "read (demo_io\<lparr>p2o_audio := Some (116, 4096)\<rparr>) = Some demo_read"
    "p2o_audio (demo_io\<lparr>p2o_audio := Some (116, 4096)\<rparr>) = Some (116, 4096)"
    by (simp_all add: demo_io_def)
  have fs: "0 < p2o_frame_size e" "p2o_frame_size e < 2 ^ 31" using sz by simp_all
  note T = p2o_catch_up [OF demo_init demo_activate run ph io m fs]
  from T have z: "p2o_buf_zero e" by blast
  from T obtain nbytes where
    b: "set_usb_output_data_blks demo_consts e =
             Some (if ow_engine_is_p2o_audio_enable e
                      \<and> p2o_transfer_size e \<le> fst (116::nat, 4096::nat)
                   then (set_blocks demo_consts e)
                          \<lparr>io_buffers := Some (demo_io\<lparr>p2o_audio := Some (116, 4096)\<rparr>
                             \<lparr>p2o_audio :=
                                Some (fst (demo_read (116, 4096) DST_NULL nbytes))\<rparr>),
                           reading_at_p2o_end := True\<rparr>
                   else set_blocks demo_consts e)"
    and c: "fst (116::nat, 4096::nat) < 2 ^ 31 \<longrightarrow>
               nbytes = fst (116::nat, 4096::nat) div p2o_frame_size e * p2o_frame_size e
               \<and> p2o_frame_size e dvd nbytes"
    by blast
  from c sz have nb: "nbytes = 112" by simp
  from T have "out_blk_sample demo_consts 1 13 (set_blocks demo_consts e)
      = htobe32 (float_to_sample demo_consts 0)"
    by (simp add: demo_consts_def)
  then have smp: "out_blk_sample demo_consts 1 13 (set_blocks demo_consts e) = [0, 0, 0, 0]"
    by (simp add: demo_consts_def htobe32_def)
  from b en sz nb have "set_usb_output_data_blks demo_consts e =
      Some ((set_blocks demo_consts e)
        \<lparr>io_buffers := Some (demo_io\<lparr>p2o_audio := Some (4, 4096)\<rparr>),
         reading_at_p2o_end := True\<rparr>)"
    by (simp add: demo_read_def)
  then have "engine_steps demo_consts [out_cycle] (PC_EVENTS, e) =
      Some (PC_EVENTS, (set_blocks demo_consts e)
        \<lparr>io_buffers := Some (demo_io\<lparr>p2o_audio := Some (4, 4096)\<rparr>),
         reading_at_p2o_end := True,
         submitted := submitted (set_blocks demo_consts e) @ [XFR_OUT]\<rparr>)"
    by (simp add: out_cycle_step)
  with run have run2: "engine_steps demo_consts
          ((boot_steps @ [STEP_SET_P2O_AUDIO_ENABLE True, STEP_HOST_RINGS (host_writes 116)])
             @ [out_cycle])
          (PC_SPIN, demo_active 2) =
      Some (PC_EVENTS, (set_blocks demo_consts e)
        \<lparr>io_buffers := Some (demo_io\<lparr>p2o_audio := Some (4, 4096)\<rparr>),
         reading_at_p2o_end := True,
         submitted := submitted (set_blocks demo_consts e) @ [XFR_OUT]\<rparr>)"
    by (simp only: engine_steps_append option.case)
  have "(4294967296::nat) \<le> 8589934592" by simp
  from big_fed [OF this, of 2] obtain g where
    grun: "engine_steps demo_consts
           (boot_steps @ [STEP_SET_P2O_AUDIO_ENABLE True,
              STEP_HOST_RINGS (host_writes 4294967296)])
           (PC_SPIN, big_active 2) = Some (PC_EVENTS, g)"
    and gio: "io_buffers g = Some (big_io\<lparr>p2o_audio := Some (4294967296, 8589934592)\<rparr>)"
    and gph: "\<not> reading_at_p2o_end g" and gen: "ow_engine_is_p2o_audio_enable g"
    and gsz: "p2o_frame_size g = 8" "p2o_transfer_size g = 56 * 2"
    by blast
  have gm: "read_space (big_io\<lparr>p2o_audio := Some (4294967296, 8589934592)\<rparr>) = Some fst"
    "read (big_io\<lparr>p2o_audio := Some (4294967296, 8589934592)\<rparr>) = Some demo_read"
    "p2o_audio (big_io\<lparr>p2o_audio := Some (4294967296, 8589934592)\<rparr>)
       = Some (4294967296, 8589934592)"
    by (simp_all add: big_io_def demo_io_def)
  have gfs: "0 < p2o_frame_size g" "p2o_frame_size g < 2 ^ 31" using gsz by simp_all
  from p2o_catch_up [OF demo_init big_activate grun gph gio gm gfs] obtain gbytes where
    ga: "map_option size_t_of_int
           (ow_bytes_to_frame_bytes (int_of_size_t (fst (4294967296::nat, 8589934592::nat)))
              (int_of_size_t (p2o_frame_size g))) = Some gbytes"
    and gb: "set_usb_output_data_blks demo_consts g =
             Some (if ow_engine_is_p2o_audio_enable g
                      \<and> p2o_transfer_size g \<le> fst (4294967296::nat, 8589934592::nat)
                   then (set_blocks demo_consts g)
                          \<lparr>io_buffers :=
                             Some (big_io\<lparr>p2o_audio := Some (4294967296, 8589934592)\<rparr>
                             \<lparr>p2o_audio :=
                                Some (fst (demo_read (4294967296, 8589934592) DST_NULL
                                  gbytes))\<rparr>),
                           reading_at_p2o_end := True\<rparr>
                   else set_blocks demo_consts g)"
    by blast
  from ga gsz have gn: "gbytes = 0"
    by (simp add: int_of_size_t_def ow_bytes_to_frame_bytes_def size_t_of_int_def)
  from gb gen gsz gn have "set_usb_output_data_blks demo_consts g =
      Some ((set_blocks demo_consts g)
        \<lparr>io_buffers := Some (big_io\<lparr>p2o_audio := Some (4294967296, 8589934592)\<rparr>),
         reading_at_p2o_end := True\<rparr>)"
    by (simp add: demo_read_def)
  then have "engine_steps demo_consts [out_cycle] (PC_EVENTS, g) =
      Some (PC_EVENTS, (set_blocks demo_consts g)
        \<lparr>io_buffers := Some (big_io\<lparr>p2o_audio := Some (4294967296, 8589934592)\<rparr>),
         reading_at_p2o_end := True,
         submitted := submitted (set_blocks demo_consts g) @ [XFR_OUT]\<rparr>)"
    by (simp add: out_cycle_step)
  with grun have grun2: "engine_steps demo_consts
          ((boot_steps @ [STEP_SET_P2O_AUDIO_ENABLE True,
              STEP_HOST_RINGS (host_writes 4294967296)]) @ [out_cycle])
          (PC_SPIN, big_active 2) =
      Some (PC_EVENTS, (set_blocks demo_consts g)
        \<lparr>io_buffers := Some (big_io\<lparr>p2o_audio := Some (4294967296, 8589934592)\<rparr>),
         reading_at_p2o_end := True,
         submitted := submitted (set_blocks demo_consts g) @ [XFR_OUT]\<rparr>)"
    by (simp only: engine_steps_append option.case)
  have p: "p2o_audio (big_io\<lparr>p2o_audio := Some (4294967296, 8589934592)\<rparr>)
      = Some (4294967296, 8589934592)"
    by simp
  show ?thesis
    using run run2 z ph io smp grun grun2 gio p demo_init demo_activate big_activate
    by (simp add: out_blk_sample_same)
qed

subsection \<open>Incoming MIDI events\<close>

lemma spec_midi_strides_from:
  "map (\<lambda>i. 4 * i) [j..<(al + 3) div 4] =
     (if 4 * j < al then 4 * j # map (\<lambda>i. 4 * i) [Suc j..<(al + 3) div 4] else [])"
proof (cases "4 * j < al")
  case True
  then have "j < (al + 3) div 4" by arith
  then show ?thesis using True by (simp add: upt_conv_Cons)
next
  case False
  then have "(al + 3) div 4 \<le> j" by arith
  then show ?thesis using False by simp
qed

text \<open>Inside the buffer, the engine reads the event of a stride as the specification has it.\<close>

lemma bytes_at_take_drop:
  assumes "off + n \<le> length mem"
  shows "bytes_at mem off n = take n (drop off mem)"
  using assms by (auto simp: bytes_at_def intro!: nth_equalityI)

lemma midi_event_at_spec:
  assumes "off + 4 \<le> length mem"
  shows "midi_event_at now mem off = spec_midi_event now mem off"
    and "bytes (midi_event_at now mem off) ! 0 = mem ! off"
  using assms
  by (simp_all add: midi_event_at_def spec_midi_event_def OB_MIDI_EVENT_SIZE_def
      bytes_at_take_drop)

lemma stride_in_buffer:
  assumes "4 * j < al" "al \<le> length mem" "4 dvd length mem"
  shows "4 * j + 4 \<le> length (mem :: 'a list)"
proof -
  from assms(3) obtain c where c: "length mem = 4 * c" by (auto simp: dvd_def)
  with assms(1,2) have "j < c" by simp
  then show ?thesis using c by simp
qed

lemma cb_xfr_in_midi_event_ring:
  assumes "io_buffers e = Some io" "write_space io = Some ws" "write_fn io = Some wr"
    "o2p_midi io = Some ring" "OW_STATUS_RUN \<le> st" "len + 4 \<le> length (o2p_midi_data e)"
  shows "\<exists>e'. cb_xfr_in_midi_event ps now len e = Some e'
     \<and> io_buffers e' = Some (io\<lparr>o2p_midi := Some
          (if spec_midi_accepts ps st ws ring (o2p_midi_data e) len
           then wr ring (SRC_MIDI_EVENT (spec_midi_event now (o2p_midi_data e) len))
                  (sizeof_ow_midi_event ps)
           else ring)\<rparr>)
     \<and> o2p_midi_data e' = o2p_midi_data e"
  using assms midi_event_at_spec [OF assms(6), of now]
  by (simp add: cb_xfr_in_midi_event_def Let_def spec_midi_accepts_def error_print_def)

lemma cb_xfr_in_midi_loop_ring:
  assumes "io_buffers e = Some io" "write_space io = Some ws" "write_fn io = Some wr"
    "o2p_midi io = Some ring" "OW_STATUS_RUN \<le> st" "len = 4 * j"
    "al \<le> length (o2p_midi_data e)" "4 dvd length (o2p_midi_data e)"
  shows "\<exists>e'. cb_xfr_in_midi_loop ps now al len e = Some e'
     \<and> io_buffers e' = Some (io\<lparr>o2p_midi := Some
          (fold (\<lambda>off ring.
             if spec_midi_accepts ps st ws ring (o2p_midi_data e) off
             then wr ring (SRC_MIDI_EVENT (spec_midi_event now (o2p_midi_data e) off))
                    (sizeof_ow_midi_event ps)
             else ring)
           (map (\<lambda>i. 4 * i) [j..<(al + 3) div 4]) ring)\<rparr>)"
  using assms
proof (induction ps now al len e arbitrary: io ring j rule: cb_xfr_in_midi_loop.induct)
  case (1 ps now al len e)
  show ?case
  proof (cases "len < al")
    case False
    with "1.prems" show ?thesis
      by (subst cb_xfr_in_midi_loop.simps, subst spec_midi_strides_from) simp
  next
    case True
    define ring1 where "ring1 =
      (if spec_midi_accepts ps st ws ring (o2p_midi_data e) len
       then wr ring (SRC_MIDI_EVENT (spec_midi_event now (o2p_midi_data e) len))
              (sizeof_ow_midi_event ps)
       else ring)"
    have "4 * j < al" using True "1.prems"(6) by simp
    from stride_in_buffer [OF this "1.prems"(7,8)]
    have fit: "len + 4 \<le> length (o2p_midi_data e)"
      using "1.prems"(6) by simp
    from cb_xfr_in_midi_event_ring [OF "1.prems"(1-5) fit, of ps now]
    obtain e1 where ev: "cb_xfr_in_midi_event ps now len e = Some e1"
      and io1: "io_buffers e1 = Some (io\<lparr>o2p_midi := Some ring1\<rparr>)"
      and mem: "o2p_midi_data e1 = o2p_midi_data e"
      unfolding ring1_def by blast
    have m: "write_space (io\<lparr>o2p_midi := Some ring1\<rparr>) = Some ws"
      "write_fn (io\<lparr>o2p_midi := Some ring1\<rparr>) = Some wr"
      "o2p_midi (io\<lparr>o2p_midi := Some ring1\<rparr>) = Some ring1"
      using "1.prems" by simp_all
    have j: "len + OB_MIDI_EVENT_SIZE = 4 * Suc j"
      using "1.prems"(6) by (simp add: OB_MIDI_EVENT_SIZE_def)
    have b: "al \<le> length (o2p_midi_data e1)" "4 dvd length (o2p_midi_data e1)"
      using "1.prems"(7,8) mem by simp_all
    from "1.IH" [OF True ev io1 m "1.prems"(5) j b]
    obtain e' where lp: "cb_xfr_in_midi_loop ps now al (len + OB_MIDI_EVENT_SIZE) e1 = Some e'"
      and io': "io_buffers e' = Some (io\<lparr>o2p_midi := Some
          (fold (\<lambda>off ring.
             if spec_midi_accepts ps st ws ring (o2p_midi_data e) off
             then wr ring (SRC_MIDI_EVENT (spec_midi_event now (o2p_midi_data e) off))
                    (sizeof_ow_midi_event ps)
             else ring)
           (map (\<lambda>i. 4 * i) [Suc j..<(al + 3) div 4]) ring1)\<rparr>)"
      unfolding mem by auto
    have "cb_xfr_in_midi_loop ps now al len e = Some e'"
      using True ev lp by (subst cb_xfr_in_midi_loop.simps) simp
    moreover note \<open>4 * j < al\<close>
    ultimately show ?thesis
      using io' "1.prems"(6)
      by (subst spec_midi_strides_from) (simp add: ring1_def)
  qed
qed

lemma spec_midi_ring_idle:
  assumes "\<not> OW_STATUS_RUN \<le> st"
  shows "spec_midi_ring ps st ws wr now mem al ring = ring"
proof -
  have "fold (\<lambda>off ring.
             if spec_midi_accepts ps st ws ring mem off
             then wr ring (SRC_MIDI_EVENT (spec_midi_event now mem off)) (sizeof_ow_midi_event ps)
             else ring) xs ring = ring" for xs
    using assms by (induction xs) (simp_all add: spec_midi_accepts_def)
  then show ?thesis by (simp add: spec_midi_ring_def)
qed

lemma io_buffers_prepare_cycle_in_midi [simp]:
  "io_buffers (prepare_cycle_in_midi e err) = io_buffers e"
  by (simp add: prepare_cycle_in_midi_def Let_def ow_engine_set_status_def error_print_def)

text \<open>
  C5. For a completed MIDI-in transfer of \<^verbatim>\<open>actual_length\<close> bytes that lie in the
  engine's buffer \<^verbatim>\<open>o2p_midi_data\<close>, \<^verbatim>\<open>cb_xfr_in_midi\<close> leaves the ring \<^verbatim>\<open>o2p_midi\<close> as
  the specification says: the bytes of the transfer are walked in 4-byte strides below
  \<^verbatim>\<open>actual_length\<close>, and the four bytes of a stride are written, stamped with the time
  and with one call of \<^verbatim>\<open>write\<close> for a full event, when the status is at least
  \<^verbatim>\<open>RUN\<close>, the first byte of the stride lies in 0x08..0x0F and the ring has room for a
  full event at that moment; an event that fails one of the three is not written. Nothing
  else of the host's buffers changes.
\<close>

theorem o2p_midi_refines_spec:
  assumes io: "io_buffers e = Some io" "write_space io = Some ws" "write_fn io = Some wr"
      "o2p_midi io = Some ring" "get_time io = Some gt"
    and buf: "al \<le> length (o2p_midi_data e)" "4 dvd length (o2p_midi_data e)"
  shows "\<exists>e'. cb_xfr_in_midi ps e LIBUSB_TRANSFER_COMPLETED al err = Some e'
     \<and> io_buffers e' = Some (io\<lparr>o2p_midi := Some
          (spec_midi_ring ps (status e) ws wr (gt ()) (o2p_midi_data e) al ring)\<rparr>)"
proof (cases "OW_STATUS_RUN \<le> status e")
  case False
  then have "ow_engine_get_status e < OW_STATUS_RUN"
    by (simp add: ow_engine_get_status_def)
  moreover have "io\<lparr>o2p_midi := Some ring\<rparr> = io"
    using io(4) by simp
  ultimately show ?thesis
    using io(1) by (simp add: cb_xfr_in_midi_def spec_midi_ring_idle [OF False])
next
  case True
  then have st: "\<not> ow_engine_get_status e < OW_STATUS_RUN"
    by (simp add: ow_engine_get_status_def)
  have z: "(0::nat) = 4 * 0" by simp
  from cb_xfr_in_midi_loop_ring [OF io(1-4) True z buf, of ps "gt ()"]
  obtain e1 where lp: "cb_xfr_in_midi_loop ps (gt ()) al 0 e = Some e1"
    and io1: "io_buffers e1 = Some (io\<lparr>o2p_midi := Some
          (spec_midi_ring ps (status e) ws wr (gt ()) (o2p_midi_data e) al ring)\<rparr>)"
    unfolding spec_midi_ring_def spec_midi_strides_def by blast
  have "cb_xfr_in_midi ps e LIBUSB_TRANSFER_COMPLETED al err = Some (prepare_cycle_in_midi e1 err)"
    using st io(1,5) lp by (simp add: cb_xfr_in_midi_def)
  then show ?thesis
    using io1 by simp
qed

text \<open>
  Five events arrive with first bytes 0x09, 0x00, 0x0B, 0x0F and 0x05, and the ring of the
  host has room for 40 bytes, two events of 16 bytes: the first and the third are
  written, with their four bytes; the fourth finds no room; the second and the fifth are
  not MIDI.
\<close>

theorem o2p_midi_refines_spec_witness:
  "map_option (map_option o2p_midi \<circ> io_buffers)
     (cb_xfr_in_midi demo_consts midi_engine LIBUSB_TRANSFER_COMPLETED 20 0)
     = Some (Some (Some
         [SRC_MIDI_EVENT \<lparr>time = 0, bytes = [0x09, 0x90, 0x40, 0x7f]\<rparr>,
          SRC_MIDI_EVENT \<lparr>time = 0, bytes = [0x0b, 0xb0, 0x01, 0x02]\<rparr>]))"
proof -
  have m: "io_buffers midi_engine = Some log_io"
    "write_space log_io = Some log_space"
    "write_fn log_io = Some log_write"
    "o2p_midi log_io = Some []"
    "get_time log_io = Some (\<lambda>_. 0)"
    by (simp_all add: midi_engine_def log_io_def)
  have d: "o2p_midi_data midi_engine = [0x09, 0x90, 0x40, 0x7f, 0x00, 0x00, 0x00, 0x00,
       0x0b, 0xb0, 0x01, 0x02, 0x0f, 0xf8, 0x00, 0x00, 0x05, 0x00, 0x00, 0x00]"
    and s: "status midi_engine = OW_STATUS_RUN"
    by (simp_all add: midi_engine_def)
  have len: "length (o2p_midi_data midi_engine) = 20"
    by (simp add: midi_engine_def)
  have buf: "20 \<le> length (o2p_midi_data midi_engine)" "4 dvd length (o2p_midi_data midi_engine)"
    unfolding len by simp_all
  have r: "spec_midi_ring demo_consts OW_STATUS_RUN log_space log_write 0
      [0x09, 0x90, 0x40, 0x7f, 0x00, 0x00, 0x00, 0x00,
       0x0b, 0xb0, 0x01, 0x02, 0x0f, 0xf8, 0x00, 0x00,
       0x05, 0x00, 0x00, 0x00] 20 []
      = [SRC_MIDI_EVENT \<lparr>time = 0, bytes = [0x09, 0x90, 0x40, 0x7f]\<rparr>,
         SRC_MIDI_EVENT \<lparr>time = 0, bytes = [0x0b, 0xb0, 0x01, 0x02]\<rparr>]"
    by (simp add: spec_midi_ring_def spec_midi_strides_def spec_midi_accepts_def upt_rec
        spec_midi_event_def log_space_def log_write_def demo_consts_def)
  from o2p_midi_refines_spec [OF m buf, of demo_consts 0] show ?thesis
    unfolding d s by (auto simp: r)
qed

subsection \<open>A stop during the wait for BOOT\<close>

lemma thread_top_WAIT:
  assumes "io_buffers e = Some io" and "dll_ow e = None \<or> get_time io \<noteq> None"
  shows "\<exists>e'. thread_top ps e = Some e' \<and> status e' = OW_STATUS_WAIT"
proof (cases "dll_ow e")
  case None
  then show ?thesis by (simp add: thread_top_def)
next
  case (Some calls)
  with assms(2) obtain gt where "get_time io = Some gt" by auto
  with Some assms(1) show ?thesis by (simp add: thread_top_def)
qed

lemma host_members_prepare_cycle:
  "io_buffers (prepare_cycle_in e err) = io_buffers e"
  "dll_ow (prepare_cycle_in e err) = dll_ow e"
  "io_buffers (prepare_cycle_out e err) = io_buffers e"
  "dll_ow (prepare_cycle_out e err) = dll_ow e"
  "io_buffers (prepare_cycle_in_midi e err) = io_buffers e"
  "dll_ow (prepare_cycle_in_midi e err) = dll_ow e"
  by (simp_all add: prepare_cycle_in_def prepare_cycle_out_def prepare_cycle_in_midi_def Let_def
      ow_engine_set_status_def error_print_def)

text \<open>
  C3. The code does not keep a stop that comes early. After a successful activation,
  when \<^verbatim>\<open>ow_engine_stop\<close> is called while the audio thread still waits for the status to
  leave \<^verbatim>\<open>READY\<close>, the status is \<^verbatim>\<open>STOP\<close>; the thread then leaves its wait, submits
  the first transfers, whatever \<^verbatim>\<open>libusb_submit_transfer\<close> answers, writes
  \<^verbatim>\<open>engine->status = OW_STATUS_WAIT\<close> over the \<^verbatim>\<open>STOP\<close> at the top of its outer loop
  and enters the event handling with the status \<^verbatim>\<open>WAIT\<close>. The same write covers an
  \<^verbatim>\<open>ERROR\<close> that a failed submission has set.
\<close>

theorem stop_lost_in_ready_wait:
  assumes act: "ow_engine_activate_with_dll mt at e0 io dll = (OW_OK, e)"
  shows "map_option (status \<circ> snd) (engine_steps ps [STEP_STOP] (PC_SPIN, e))
           = Some OW_STATUS_STOP
     \<and> (\<exists>e'. engine_steps ps
                [STEP_STOP, STEP_THREAD a, STEP_THREAD b, STEP_THREAD c, STEP_THREAD d,
                 STEP_THREAD f, STEP_THREAD g] (PC_SPIN, e) = Some (PC_EVENTS, e')
            \<and> status e' = OW_STATUS_WAIT)"
proof -
  from activate_stores_arguments [of mt at e0 io dll] act
  have io: "io_buffers e = Some io" and d: "dll_ow e = dll"
    by simp_all
  from act have t: "dll = None \<or> get_time io \<noteq> None"
    by (auto simp: ow_engine_activate_with_dll_def activate_threads_def Let_def
        split: if_splits)
  define e1 where "e1 = ow_engine_stop e"
  define e4 where "e4 = (if midi (prepare_cycle_out (prepare_cycle_in e1 b) c)
      then prepare_cycle_in_midi (prepare_cycle_out (prepare_cycle_in e1 b) c) d
      else prepare_cycle_out (prepare_cycle_in e1 b) c)"
  have s1: "status e1 = OW_STATUS_STOP"
    by (simp add: e1_def ow_engine_stop_def ow_engine_set_status_def)
  have "io_buffers e1 = Some io" "dll_ow e1 = dll"
    using io d by (simp_all add: e1_def ow_engine_stop_def ow_engine_set_status_def)
  then have "io_buffers e4 = Some io" "dll_ow e4 = None \<or> get_time io \<noteq> None"
    using t by (simp_all add: e4_def host_members_prepare_cycle)
  from thread_top_WAIT [OF this, of ps] obtain e5 where
    top: "thread_top ps e4 = Some e5" and s5: "status e5 = OW_STATUS_WAIT"
    by blast
  have first: "engine_steps ps [STEP_STOP, STEP_THREAD a, STEP_THREAD b, STEP_THREAD c,
      STEP_THREAD d] (PC_SPIN, e) = Some (PC_TOP, e4)"
    using s1 by (simp add: e1_def [symmetric] e4_def ow_engine_get_status_def)
  have last: "engine_steps ps [STEP_THREAD f, STEP_THREAD g] (PC_TOP, e4) = Some (PC_EVENTS, e5)"
    using top s5 by (simp add: ow_engine_get_status_def)
  have "engine_steps ps
      ([STEP_STOP, STEP_THREAD a, STEP_THREAD b, STEP_THREAD c, STEP_THREAD d]
        @ [STEP_THREAD f, STEP_THREAD g]) (PC_SPIN, e) = Some (PC_EVENTS, e5)"
    using first last by (simp only: engine_steps_append option.case)
  then have "engine_steps ps
      [STEP_STOP, STEP_THREAD a, STEP_THREAD b, STEP_THREAD c, STEP_THREAD d,
       STEP_THREAD f, STEP_THREAD g] (PC_SPIN, e) = Some (PC_EVENTS, e5)"
    by simp
  moreover have "map_option (status \<circ> snd) (engine_steps ps [STEP_STOP] (PC_SPIN, e))
      = Some OW_STATUS_STOP"
    using s1 by (simp add: e1_def)
  ultimately show ?thesis
    using s5 by blast
qed

text \<open>
  The example engine: the stop is there after \<^verbatim>\<open>ow_engine_stop\<close>, and six steps of the
  audio thread later the thread is handling events with the status \<^verbatim>\<open>WAIT\<close>, also when
  the first submission fails.
\<close>

theorem stop_lost_in_ready_wait_witness:
  "ow_engine_activate_with_dll True True (demo_engine 2) demo_io None = (OW_OK, demo_active 2)
   \<and> map_option (status \<circ> snd)
       (engine_steps demo_consts [STEP_STOP] (PC_SPIN, demo_active 2))
     = Some OW_STATUS_STOP
   \<and> map_option (status \<circ> snd)
       (engine_steps demo_consts
          [STEP_STOP, STEP_THREAD 0, STEP_THREAD 0, STEP_THREAD 0, STEP_THREAD 0, STEP_THREAD 0,
           STEP_THREAD 0]
          (PC_SPIN, demo_active 2))
     = Some OW_STATUS_WAIT
   \<and> map_option fst
       (engine_steps demo_consts
          [STEP_STOP, STEP_THREAD 0, STEP_THREAD 0, STEP_THREAD 0, STEP_THREAD 0, STEP_THREAD 0,
           STEP_THREAD 0]
          (PC_SPIN, demo_active 2))
     = Some PC_EVENTS
   \<and> map_option (status \<circ> snd)
       (engine_steps demo_consts
          [STEP_STOP, STEP_THREAD 0, STEP_THREAD 1, STEP_THREAD 0, STEP_THREAD 0, STEP_THREAD 0,
           STEP_THREAD 0]
          (PC_SPIN, demo_active 2))
     = Some OW_STATUS_WAIT
   \<and> OW_STATUS_STOP < OW_STATUS_WAIT"
proof -
  from stop_lost_in_ready_wait [OF demo_activate [of 2],
      where ps = demo_consts and a = 0 and b = 0 and c = 0 and d = 0 and f = 0 and g = 0]
  obtain e' where 1: "map_option (status \<circ> snd)
       (engine_steps demo_consts [STEP_STOP] (PC_SPIN, demo_active 2)) = Some OW_STATUS_STOP"
    and 2: "engine_steps demo_consts
          [STEP_STOP, STEP_THREAD 0, STEP_THREAD 0, STEP_THREAD 0, STEP_THREAD 0, STEP_THREAD 0,
           STEP_THREAD 0]
          (PC_SPIN, demo_active 2) = Some (PC_EVENTS, e')"
    and 3: "status e' = OW_STATUS_WAIT"
    by blast
  from stop_lost_in_ready_wait [OF demo_activate [of 2],
      where ps = demo_consts and a = 0 and b = 1 and c = 0 and d = 0 and f = 0 and g = 0]
  obtain e'' where 4: "engine_steps demo_consts
          [STEP_STOP, STEP_THREAD 0, STEP_THREAD 1, STEP_THREAD 0, STEP_THREAD 0, STEP_THREAD 0,
           STEP_THREAD 0]
          (PC_SPIN, demo_active 2) = Some (PC_EVENTS, e'')"
    and 5: "status e'' = OW_STATUS_WAIT"
    by blast
  have 6: "OW_STATUS_STOP < OW_STATUS_WAIT"
    by (simp add: less_ow_engine_status_t_def)
  from 1 2 3 4 5 6 demo_activate show ?thesis
    by simp
qed

end
